theory Spec2Isabelle
  imports Main "HOL-Library.Word" "HOL-Library.Multiset"
begin

unbundle bit_operations_syntax

chapter \<open>Definitions: the embedded code\<close>

section \<open>Helpers and types of common.h\<close>

text \<open>
  Modelled from the spec: \<^verbatim>\<open>Clip3\<close> of common.h (the header is not under src/). The
  spec speaks of clipping a value into a range; \<open>Clip3 minVal maxVal a\<close> is \<open>a\<close> clipped
  into \<open>[minVal, maxVal]\<close>.
\<close>

definition Clip3 :: "int \<Rightarrow> int \<Rightarrow> int \<Rightarrow> int" where
  "Clip3 minVal maxVal a = min (max minVal a) maxVal"

text \<open>The enums \<^verbatim>\<open>TextType\<close> and the chroma sampling formats \<^verbatim>\<open>X265_CSP_*\<close>.\<close>

datatype TextType = TEXT_LUMA | TEXT_CHROMA_U | TEXT_CHROMA_V

datatype ChromaFormat = X265_CSP_I400 | X265_CSP_I420 | X265_CSP_I422 | X265_CSP_I444

text \<open>\<^verbatim>\<open>TextType\<close> used as an integer (\<^verbatim>\<open>ttype + 3\<close>, array indices).\<close>

fun ttype_int :: "TextType \<Rightarrow> int" where
  "ttype_int TEXT_LUMA = 0"
| "ttype_int TEXT_CHROMA_U = 1"
| "ttype_int TEXT_CHROMA_V = 2"

section \<open>Machine arithmetic\<close>

text \<open>
  \<^verbatim>\<open>coeff_t\<close> is \<^verbatim>\<open>int32_t\<close> in this revision (the bypass path converts 16 to 32 bits).
  Signed C integers are modelled as \<open>int\<close>; the quantities held in them (levels clamped to
  16 bits, DCT coefficients, shifted differences) are far from the 32-bit range, where signed
  overflow would be undefined. Where the source computes in an unsigned type, or casts, the
  wrap-around is written out with the functions below. A right shift of a signed value is
  arithmetic (\<open>x div 2 ^ n\<close>).
\<close>

definition u32 :: "int \<Rightarrow> int" where
  "u32 x = x mod 2 ^ 32"

definition u64 :: "int \<Rightarrow> int" where
  "u64 x = x mod 2 ^ 64"

definition s32 :: "int \<Rightarrow> int" where
  "s32 x = (x + 2 ^ 31) mod 2 ^ 32 - 2 ^ 31"

definition asr :: "int \<Rightarrow> nat \<Rightarrow> int" where
  "asr x n = x div 2 ^ n"

text \<open>
  Constants of the headers, which are not under src/. Modelled from the spec:
  \<^verbatim>\<open>SBH_THRESHOLD\<close> is 4 and a coefficient group is a fixed 4 by 4 cluster of 16 coefficients
  (\<^verbatim>\<open>SCAN_SET_SIZE = 1 << LOG2_SCAN_SET_SIZE = 1 << MLS_CG_SIZE = 16\<close>). \<^verbatim>\<open>MAX_INT\<close> and
  \<^verbatim>\<open>MAX_INT64\<close> are the largest values of \<^verbatim>\<open>int\<close> and \<^verbatim>\<open>int64_t\<close>.
\<close>

definition SBH_THRESHOLD :: int where "SBH_THRESHOLD = 4"
definition LOG2_SCAN_SET_SIZE :: nat where "LOG2_SCAN_SET_SIZE = 4"
definition SCAN_SET_SIZE :: nat where "SCAN_SET_SIZE = 16"
definition MLS_CG_SIZE :: nat where "MLS_CG_SIZE = 4"
definition MAX_INT :: int where "MAX_INT = 2147483647"
definition MAX_INT64 :: int where "MAX_INT64 = 9223372036854775807"


text \<open>
  A loop \<^verbatim>\<open>for (i = n - 1; i >= 0; i--)\<close> with body \<open>f i\<close> on the state.
\<close>

primrec for_down :: "(nat \<Rightarrow> 's \<Rightarrow> 's) \<Rightarrow> nat \<Rightarrow> 's \<Rightarrow> 's" where
  "for_down f 0 s = s"
| "for_down f (Suc n) s = for_down f n (f n s)"

section \<open>TUEntropyCodingParameters\<close>

datatype ScanType = SCAN_DIAG | SCAN_HOR | SCAN_VER

text \<open>
  The struct filled by \<^verbatim>\<open>TComDataCU::getTUEntropyCodingParameters\<close> (not under src/):
  \<open>scan\<close> maps a scan position to a raster block position, \<open>scanCG\<close> a coefficient-group
  scan position to the group's raster position.
\<close>

record TUEntropyCodingParameters =
  scan :: "nat list"
  scanCG :: "nat list"
  scanType :: ScanType
  log2TrSizeCG :: nat
  firstSignificanceMapContext :: nat

section \<open>Sign-data hiding after scalar quantization (quant.cpp, lines 216-323)\<close>

text \<open>
  The first loop of a group: \<^verbatim>\<open>for (n = SCAN_SET_SIZE - 1; n >= 0; --n) if (coeff[scan[n +
  cgStartPos]]) break;\<close>. \<open>lastNZ_from coeff scan cgStartPos (n + 1)\<close> is the value of \<open>n\<close>
  after the loop started at \<open>n\<close>; \<open>-1\<close> when no coefficient is non-zero.
\<close>

primrec lastNZ_from :: "int list \<Rightarrow> nat list \<Rightarrow> nat \<Rightarrow> nat \<Rightarrow> int" where
  "lastNZ_from coeff scn cgStartPos 0 = - 1"
| "lastNZ_from coeff scn cgStartPos (Suc n) =
     (if coeff ! (scn ! (n + cgStartPos)) \<noteq> 0 then int n
      else lastNZ_from coeff scn cgStartPos n)"

text \<open>
  The second loop, \<^verbatim>\<open>for (n = 0;; n++) if (coeff[scan[n + cgStartPos]]) break;\<close>, has no
  bound of its own: it runs only when the first loop found a non-zero coefficient at
  \<open>lastNZPosInCG\<close>, where it stops at the latest. That position bounds the recursion.
\<close>

function firstNZ_loop :: "int list \<Rightarrow> nat list \<Rightarrow> nat \<Rightarrow> nat \<Rightarrow> nat \<Rightarrow> nat" where
  "firstNZ_loop coeff scn cgStartPos lastNZ n =
     (if n < lastNZ \<and> coeff ! (scn ! (n + cgStartPos)) = 0
      then firstNZ_loop coeff scn cgStartPos lastNZ (Suc n)
      else n)"
  by pat_completeness auto
termination
  by (relation "measure (\<lambda>(coeff, scn, cgStartPos, lastNZ, n). lastNZ - n)") auto

declare firstNZ_loop.simps [simp del]

text \<open>
  \<^verbatim>\<open>absSum\<close> is a \<^verbatim>\<open>uint32_t\<close> (an \<^verbatim>\<open>int\<close> in rdoQuant) to which the signed coefficients
  from \<open>firstNZPosInCG\<close> to \<open>lastNZPosInCG\<close> are added; only its lowest bit is used.
\<close>

definition sbh_absSum :: "int list \<Rightarrow> nat list \<Rightarrow> nat \<Rightarrow> nat \<Rightarrow> nat \<Rightarrow> int" where
  "sbh_absSum coeff scn cgStartPos firstNZ lastNZ =
     fold (\<lambda>n absSum. u32 (absSum + coeff ! (scn ! (n + cgStartPos)))) [firstNZ..<Suc lastNZ] 0"

text \<open>The variables of the search for the cheapest coefficient to change.\<close>

record sbh_search =
  minCostInc :: int
  minPos :: int
  finalChange :: int
  curCost :: int
  curChange :: int

definition sbh_select :: "nat \<Rightarrow> sbh_search \<Rightarrow> sbh_search" where
  "sbh_select blkPos s =
     (if curCost s < minCostInc s
      then s\<lparr> minCostInc := curCost s, finalChange := curChange s, minPos := int blkPos \<rparr>
      else s)"

text \<open>The body of the search loop of \<^verbatim>\<open>signBitHidingHDQ\<close> (lines 254-301) at \<open>n\<close>.\<close>

definition hdq_search_step ::
  "int list \<Rightarrow> int list \<Rightarrow> int list \<Rightarrow> nat list \<Rightarrow> nat \<Rightarrow> nat \<Rightarrow> int \<Rightarrow> nat
     \<Rightarrow> sbh_search \<Rightarrow> sbh_search" where
  "hdq_search_step coeff deltaU m_resiDctCoeff scn cgStartPos firstNZPosInCG signbit n s =
     (let blkPos = scn ! (n + cgStartPos);
          s1 = (if coeff ! blkPos \<noteq> 0
                then (if deltaU ! blkPos > 0
                      then s\<lparr> curCost := - (deltaU ! blkPos), curChange := 1 \<rparr>
                      else if n = firstNZPosInCG \<and> \<bar>coeff ! blkPos\<bar> = 1
                           then s\<lparr> curCost := MAX_INT \<rparr>
                           else s\<lparr> curCost := deltaU ! blkPos, curChange := - 1 \<rparr>)
                else (if n < firstNZPosInCG
                      then (let thisSignBit = (if m_resiDctCoeff ! blkPos \<ge> 0 then 0 else 1 :: int)
                            in if thisSignBit \<noteq> signbit
                               then s\<lparr> curCost := MAX_INT \<rparr>
                               else s\<lparr> curCost := - (deltaU ! blkPos), curChange := 1 \<rparr>)
                      else s\<lparr> curCost := - (deltaU ! blkPos), curChange := 1 \<rparr>))
      in sbh_select blkPos s1)"

text \<open>
  The end of a group's treatment, the same statements in \<^verbatim>\<open>signBitHidingHDQ\<close> (lines
  303-315) and in \<^verbatim>\<open>rdoQuant\<close> (lines 992-1003): the clamp guard, the update of \<open>numSig\<close>
  (a \<^verbatim>\<open>uint32_t\<close>) and the change of the coefficient, added when the DCT coefficient is
  non-negative and subtracted when it is negative. \<open>minPos\<close> is still \<open>-1\<close> when no
  candidate was below the initial cost; \<^verbatim>\<open>coeff[minPos]\<close> is then outside the array, which
  is the result \<open>None\<close>, as is any other index outside the array.
\<close>

definition sbh_apply ::
  "int list \<Rightarrow> int list \<Rightarrow> int \<Rightarrow> int \<Rightarrow> int \<Rightarrow> (int \<times> int list) option" where
  "sbh_apply coeff m_resiDctCoeff numSig minPos0 finalChange0 =
     (if minPos0 < 0 \<or> length coeff \<le> nat minPos0 then None
      else
        let p = nat minPos0;
            finalChange1 = (if coeff ! p = 32767 \<or> coeff ! p = - 32768 then - 1 else finalChange0);
            numSig1 = (if coeff ! p = 0 then u32 (numSig + 1)
                       else if finalChange1 = - 1 \<and> \<bar>coeff ! p\<bar> = 1 then u32 (numSig - 1)
                       else numSig)
        in if m_resiDctCoeff ! p \<ge> 0
           then Some (numSig1, coeff[p := coeff ! p + finalChange1])
           else Some (numSig1, coeff[p := coeff ! p - finalChange1]))"

text \<open>
  The body of the loop over the coefficient groups of \<^verbatim>\<open>signBitHidingHDQ\<close>. The state is
  \<open>(numSig, coeff, lastCG)\<close>.
\<close>

definition hdq_cg ::
  "int list \<Rightarrow> int list \<Rightarrow> nat list \<Rightarrow> nat \<Rightarrow> int \<times> int list \<times> bool
     \<Rightarrow> (int \<times> int list \<times> bool) option" where
  "hdq_cg deltaU m_resiDctCoeff scn cg st =
     (case st of (numSig, coeff, lastCG) \<Rightarrow>
        let cgStartPos = push_bit LOG2_SCAN_SET_SIZE cg;
            n = lastNZ_from coeff scn cgStartPos SCAN_SET_SIZE
        in if n < 0 then Some st
           else
             let lastNZPosInCG = nat n;
                 firstNZPosInCG = firstNZ_loop coeff scn cgStartPos lastNZPosInCG 0
             in if int lastNZPosInCG - int firstNZPosInCG \<ge> SBH_THRESHOLD
                then
                  let signbit = (if coeff ! (scn ! (cgStartPos + firstNZPosInCG)) > 0 then 0 else 1 :: int);
                      absSum = sbh_absSum coeff scn cgStartPos firstNZPosInCG lastNZPosInCG
                  in if signbit \<noteq> absSum AND 1
                     then
                       let s0 = \<lparr> minCostInc = MAX_INT, minPos = - 1, finalChange = 0,
                                  curCost = MAX_INT, curChange = 0 \<rparr>;
                           s = fold (hdq_search_step coeff deltaU m_resiDctCoeff scn cgStartPos
                                       firstNZPosInCG signbit)
                                 (rev [0..<Suc (if lastCG then lastNZPosInCG else SCAN_SET_SIZE - 1)]) s0
                       in (case sbh_apply coeff m_resiDctCoeff numSig (minPos s) (finalChange s) of
                             None \<Rightarrow> None
                           | Some (numSig', coeff') \<Rightarrow> Some (numSig', coeff', False))
                     else Some (numSig, coeff, False)
                else Some (numSig, coeff, False))"

text \<open>
  \<^verbatim>\<open>Quant::signBitHidingHDQ\<close>: the groups \<open>(1 << log2TrSizeCG * 2) - 1\<close> down to \<open>0\<close>. It
  reads the member \<^verbatim>\<open>m_resiDctCoeff\<close>, changes \<open>coeff\<close> in place and returns \<open>numSig\<close>; the
  model returns both.
\<close>

definition signBitHidingHDQ ::
  "int list \<Rightarrow> int list \<Rightarrow> int list \<Rightarrow> int \<Rightarrow> TUEntropyCodingParameters
     \<Rightarrow> (int \<times> int list) option" where
  "signBitHidingHDQ m_resiDctCoeff coeff deltaU numSig codeParams =
     (case fold (\<lambda>cg r. case r of None \<Rightarrow> None
                         | Some st \<Rightarrow> hdq_cg deltaU m_resiDctCoeff (scan codeParams) cg st)
             (rev [0..<push_bit (log2TrSizeCG codeParams * 2) 1]) (Some (numSig, coeff, True)) of
        None \<Rightarrow> None
      | Some (numSig', coeff', lastCG) \<Rightarrow> Some (numSig', coeff'))"

text \<open>
  The spec's words for sign-data hiding, to compare with the code: the levels of a
  coefficient group in scan order, the first and the last non-zero position of a group,
  and the condition under which a group is modified: the distance of the two positions
  is at least \<^verbatim>\<open>SBH_THRESHOLD\<close> and the sign bit of the first non-zero level differs from
  the parity of the sum of the absolute levels.
\<close>

definition cg_levels :: "int list \<Rightarrow> nat list \<Rightarrow> nat \<Rightarrow> int list" where
  "cg_levels coeff scn cg = map (\<lambda>n. coeff ! (scn ! (n + 16 * cg))) [0..<16]"

definition first_nonzero :: "int list \<Rightarrow> nat" where
  "first_nonzero ls = length (takeWhile (\<lambda>x. x = 0) ls)"

definition last_nonzero :: "int list \<Rightarrow> nat" where
  "last_nonzero ls = length ls - 1 - length (takeWhile (\<lambda>x. x = 0) (rev ls))"

definition sbh_condition :: "int list \<Rightarrow> bool" where
  "sbh_condition ls \<longleftrightarrow>
     (\<exists>x\<in>set ls. x \<noteq> 0)
     \<and> int (last_nonzero ls) - int (first_nonzero ls) \<ge> 4
     \<and> (if ls ! first_nonzero ls < 0 then 1 else 0) \<noteq> sum_list (map abs ls) mod 2"

text \<open>
  The notions the claims are stated with: the number of non-zero entries of a level array
  (what \<^verbatim>\<open>primitives.count_nonzero\<close> computes in the source's checks), and a level
  carrying the sign of its DCT coefficient, in the sense of the code's sign bit: a non-zero
  level is negative exactly when the DCT coefficient is negative.
\<close>

definition count_nonzero :: "int list \<Rightarrow> int" where
  "count_nonzero xs = int (length (filter (\<lambda>x. x \<noteq> 0) xs))"

definition sign_matches :: "int \<Rightarrow> int \<Rightarrow> bool" where
  "sign_matches dct level \<longleftrightarrow> (level \<noteq> 0 \<longrightarrow> (level < 0 \<longleftrightarrow> dct < 0))"

definition signs_match :: "int list \<Rightarrow> int list \<Rightarrow> bool" where
  "signs_match dct levels \<longleftrightarrow> (\<forall>i<length levels. sign_matches (dct ! i) (levels ! i))"

text \<open>
  The relation between the levels of one coefficient group before and after sign-data
  hiding that claim C9 states.
\<close>

definition sbh_group_effect :: "int list \<Rightarrow> int list \<Rightarrow> bool" where
  "sbh_group_effect ls ls' \<longleftrightarrow>
     (if sbh_condition ls
      then (\<exists>n<16. \<bar>\<bar>ls' ! n\<bar> - \<bar>ls ! n\<bar>\<bar> = 1 \<and> (\<forall>m<16. m \<noteq> n \<longrightarrow> ls' ! m = ls ! m))
      else ls' = ls)"

section \<open>Auxiliary predicates of the proofs about sign-data hiding\<close>

text \<open>
  A candidate \<open>(p, f)\<close> of the search of a coefficient group starting at scan position
  \<open>st\<close>: a block position of the group and a change of \<open>+1\<close> or \<open>-1\<close> of the absolute
  level, \<open>+1\<close> where the level is zero; and the invariant of the search loop.
\<close>

definition cand_ok :: "int list \<Rightarrow> nat list \<Rightarrow> nat \<Rightarrow> int \<Rightarrow> int \<Rightarrow> bool" where
  "cand_ok coeff scn st p f \<longleftrightarrow>
     (\<exists>n<16. p = int (scn ! (n + st)) \<and> (f = 1 \<or> f = - 1) \<and> (coeff ! (scn ! (n + st)) = 0 \<longrightarrow> f = 1))"

definition search_inv :: "int list \<Rightarrow> nat list \<Rightarrow> nat \<Rightarrow> sbh_search \<Rightarrow> bool" where
  "search_inv coeff scn st s \<longleftrightarrow>
     minCostInc s \<le> MAX_INT \<and> (minPos s = - 1 \<or> cand_ok coeff scn st (minPos s) (finalChange s))"

section \<open>QpParam and setQPforQuant (quant.cpp, lines 191-214)\<close>

record QpParam =
  rem :: int
  per :: int
  qp :: int

text \<open>
  Modelled from the spec: \<^verbatim>\<open>QpParam::setQpParam\<close> is declared in quant.h, which is not under
  src/. The spec's data model: \<open>per = qp/6\<close>, \<open>rem = qp%6\<close>. The argument is never negative
  (it is a clipped QP plus \<^verbatim>\<open>QP_BD_OFFSET\<close>), so C's division is \<open>div\<close>.
\<close>

definition setQpParam :: "int \<Rightarrow> QpParam" where
  "setQpParam qpScaled = \<lparr> rem = qpScaled mod 6, per = qpScaled div 6, qp = qpScaled \<rparr>"

text \<open>
  The chroma overload of \<^verbatim>\<open>Quant::setQPforQuant\<close>. The macro \<^verbatim>\<open>QP_BD_OFFSET\<close> and the table
  \<^verbatim>\<open>g_chromaScale\<close> are not under src/ and are parameters. The member \<^verbatim>\<open>m_qpParam\<close> is
  passed in and returned updated.
\<close>

definition setQPforQuant ::
  "int \<Rightarrow> int list \<Rightarrow> (TextType \<Rightarrow> QpParam) \<Rightarrow> int \<Rightarrow> TextType \<Rightarrow> int \<Rightarrow> ChromaFormat
     \<Rightarrow> (TextType \<Rightarrow> QpParam)" where
  "setQPforQuant QP_BD_OFFSET g_chromaScale m_qpParam qpy ttype chromaQPOffset chFmt =
    (let qp0 = Clip3 (- QP_BD_OFFSET) 57 (qpy + chromaQPOffset);
         qp1 = (if qp0 \<ge> 30
                then (if chFmt = X265_CSP_I420 then g_chromaScale ! nat qp0 else min qp0 51)
                else qp0)
     in m_qpParam (ttype := setQpParam (qp1 + QP_BD_OFFSET)))"

text \<open>The 4:2:0 chroma QP mapping table of HEVC, used to run the model on concrete inputs.\<close>

definition hevc_chromaScale :: "int list" where
  "hevc_chromaScale =
    [0, 1, 2, 3, 4, 5, 6, 7, 8, 9, 10, 11, 12, 13, 14, 15, 16, 17, 18, 19, 20, 21, 22, 23, 24,
     25, 26, 27, 28, 29, 29, 30, 31, 32, 33, 33, 34, 34, 35, 35, 36, 36, 37, 37, 38, 39, 40, 41,
     42, 43, 44, 45, 46, 47, 48, 49, 50, 51]"

section \<open>DC intra prediction (intrapred.cpp, lines 30-63)\<close>

text \<open>
  A \<^verbatim>\<open>pixel\<close> is an unsigned integer of \<open>pixbits\<close> bits (8 or 16, by build); the cast
  \<^verbatim>\<open>(pixel)v\<close> of an \<^verbatim>\<open>int\<close> keeps the low \<open>pixbits\<close> bits. Buffers are lists, pointer
  offsets (\<^verbatim>\<open>srcPix + 1\<close>) are index offsets.
\<close>

type_synonym pixel = nat

definition to_pixel :: "nat \<Rightarrow> int \<Rightarrow> pixel" where
  "to_pixel pixbits v = nat (v mod 2 ^ pixbits)"

definition dcPredFilter ::
  "nat \<Rightarrow> pixel list \<Rightarrow> pixel list \<Rightarrow> pixel list \<Rightarrow> nat \<Rightarrow> nat \<Rightarrow> pixel list" where
  "dcPredFilter pixbits aboveRow leftCol dst dststride sz =
    (let dst1 = dst[0 := to_pixel pixbits
                  ((int (aboveRow ! 0) + int (leftCol ! 0) + 2 * int (dst ! 0) + 2) div 4)];
         dst2 = fold (\<lambda>x d. d[x := to_pixel pixbits
                  ((int (aboveRow ! x) + 3 * int (d ! x) + 2) div 4)]) [1..<sz] dst1
     in fold (\<lambda>y d. d[y * dststride := to_pixel pixbits
                  ((int (leftCol ! y) + 3 * int (d ! (y * dststride)) + 2) div 4)]) [1..<sz] dst2)"

text \<open>The accumulation loop and the division of \<^verbatim>\<open>intra_pred_dc_c_new\<close> (lines 51-55).\<close>

definition dc_dcVal :: "nat \<Rightarrow> pixel list \<Rightarrow> int" where
  "dc_dcVal width srcPix =
    (let dcVal = fold (\<lambda>i s. s + (int (srcPix ! (1 + i)) + int (srcPix ! (2 * width + 1 + i))))
                   [0..<width] (int width)
     in dcVal div (int width + int width))"

definition intra_pred_dc_c_new ::
  "nat \<Rightarrow> nat \<Rightarrow> pixel list \<Rightarrow> nat \<Rightarrow> pixel list \<Rightarrow> bool \<Rightarrow> pixel list" where
  "intra_pred_dc_c_new pixbits width dst dstStride srcPix bFilter =
    (let dcVal = dc_dcVal width srcPix;
         dst1 = fold (\<lambda>k d. fold (\<lambda>l d'. d'[k * dstStride + l := to_pixel pixbits dcVal])
                                [0..<width] d) [0..<width] dst
     in if bFilter
        then dcPredFilter pixbits (drop 1 srcPix) (drop (2 * width + 1) srcPix) dst1 dstStride width
        else dst1)"

text \<open>
  The spec's words for mode 1, to compare with the code: the rounded average of a list of
  samples, and the \<open>2N\<close> top and \<open>2N\<close> left samples of the reference array
  \<open>[top-left, top(0..2N-1), left(0..2N-1)]\<close>.
\<close>

definition rounded_average :: "pixel list \<Rightarrow> int" where
  "rounded_average xs = (int (sum_list xs) + int (length xs div 2)) div int (length xs)"

definition spec_dc_samples_2N :: "nat \<Rightarrow> pixel list \<Rightarrow> pixel list" where
  "spec_dc_samples_2N N srcPix = take (2 * N) (drop 1 srcPix) @ take (2 * N) (drop (2 * N + 1) srcPix)"

definition dc_samples_N :: "nat \<Rightarrow> pixel list \<Rightarrow> pixel list" where
  "dc_samples_N N srcPix = take N (drop 1 srcPix) @ take N (drop (2 * N + 1) srcPix)"

section \<open>What rdoQuant and transformNxN read from outside quant.cpp\<close>

text \<open>
  Build constants and global tables of the headers and of TComRom, none of them under src/.
  They are parameters of the model: \<^verbatim>\<open>X265_DEPTH\<close>, \<^verbatim>\<open>MAX_TR_DYNAMIC_RANGE\<close>, \<^verbatim>\<open>QUANT_SHIFT\<close>,
  \<^verbatim>\<open>QUANT_IQUANT_SHIFT\<close>, \<^verbatim>\<open>SCALE_BITS\<close>, \<^verbatim>\<open>IEP_RATE\<close>, \<^verbatim>\<open>COEF_REMAIN_BIN_REDUCTION\<close>, the
  table \<^verbatim>\<open>g_goRiceRange\<close>, the helper \<^verbatim>\<open>getGroupIdx\<close> and the indices \<^verbatim>\<open>DCT_4x4\<close> and
  \<^verbatim>\<open>IDCT_4x4\<close> of the transform kernels.
\<close>

record BuildConsts =
  X265_DEPTH :: int
  MAX_TR_DYNAMIC_RANGE :: int
  QUANT_SHIFT :: int
  QUANT_IQUANT_SHIFT :: int
  SCALE_BITS :: int
  IEP_RATE :: int
  COEF_REMAIN_BIN_REDUCTION :: int
  g_goRiceRange :: "int list"
  getGroupIdx :: "int \<Rightarrow> int"
  DCT_4x4 :: int
  IDCT_4x4 :: int

text \<open>
  The values of \<^verbatim>\<open>double\<close>. Floating-point arithmetic is not modelled: its operations
  are parameters, and what is proved of the model holds for every choice of them, IEEE
  double arithmetic included. \<open>fp_of_int\<close> is the conversion of an integer, \<open>fp_to_int64\<close>
  the cast \<^verbatim>\<open>(int64_t)\<close>, \<open>fp_half\<close> the literal \<^verbatim>\<open>0.5\<close>.
\<close>

record 'd fp_ops =
  fp_of_int :: "int \<Rightarrow> 'd"
  fp_add :: "'d \<Rightarrow> 'd \<Rightarrow> 'd"
  fp_sub :: "'d \<Rightarrow> 'd \<Rightarrow> 'd"
  fp_mul :: "'d \<Rightarrow> 'd \<Rightarrow> 'd"
  fp_div :: "'d \<Rightarrow> 'd \<Rightarrow> 'd"
  fp_less :: "'d \<Rightarrow> 'd \<Rightarrow> bool"
  fp_to_int64 :: "'d \<Rightarrow> int"
  fp_half :: 'd
  MAX_DOUBLE :: 'd

text \<open>
  The CABAC bit-cost tables \<^verbatim>\<open>EstBitsSbac\<close> (read-only; an array is the function from its
  indices to its entries).
\<close>

record EstBitsSbac =
  significantCoeffGroupBits :: "nat \<Rightarrow> nat \<Rightarrow> int"
  significantBits :: "nat \<Rightarrow> nat \<Rightarrow> int"
  lastXBits :: "nat \<Rightarrow> int"
  lastYBits :: "nat \<Rightarrow> int"
  greaterOneBits :: "nat \<Rightarrow> nat \<Rightarrow> int"
  levelAbsBits :: "nat \<Rightarrow> nat \<Rightarrow> int"
  blockCbpBits :: "nat \<Rightarrow> nat \<Rightarrow> int"
  blockRootCbpBits :: "nat \<Rightarrow> nat \<Rightarrow> int"

text \<open>
  What the code asks of the coding unit \<^verbatim>\<open>cu\<close> at \<^verbatim>\<open>absPartIdx\<close> (TComDataCU is not under
  src/): each field is the answer of the accessor named in its comment.
\<close>

record TComDataCU =
  cuTransquantBypass :: bool \<comment> \<open>\<^verbatim>\<open>getCUTransquantBypass(absPartIdx)\<close>\<close>
  cuIsIntra :: bool \<comment> \<open>\<^verbatim>\<open>getPredictionMode(absPartIdx) == MODE_INTRA\<close>, \<^verbatim>\<open>isIntra(absPartIdx)\<close>\<close>
  sliceIsI :: bool \<comment> \<open>\<^verbatim>\<open>m_slice->m_sliceType == I_SLICE\<close>\<close>
  bSignHideEnabled :: bool \<comment> \<open>\<^verbatim>\<open>m_slice->m_pps->bSignHideEnabled\<close>\<close>
  transformIdx :: int \<comment> \<open>\<^verbatim>\<open>getTransformIdx(absPartIdx)\<close>\<close>
  ctxQtCbf :: "TextType \<Rightarrow> nat" \<comment> \<open>\<^verbatim>\<open>getCtxQtCbf(ttype, getTransformIdx(absPartIdx))\<close>\<close>
  tuCodeParams :: "nat \<Rightarrow> bool \<Rightarrow> TUEntropyCodingParameters"
    \<comment> \<open>\<^verbatim>\<open>getTUEntropyCodingParameters(codeParams, absPartIdx, log2TrSize, bIsLuma)\<close>\<close>

text \<open>
  The macro \<^verbatim>\<open>CLZ32\<close> of common.h, by the note in the source the x86 instruction BSR:
  the index of the highest set bit.
\<close>

fun CLZ32 :: "nat \<Rightarrow> nat" where
  "CLZ32 n = (if n < 2 then 0 else Suc (CLZ32 (n div 2)))"

declare CLZ32.simps [simp del]

section \<open>Rate helpers (quant.cpp, lines 34-162)\<close>

text \<open>\<^verbatim>\<open>#define SIGN(x,y) ((x^(y >> 31))-(y >> 31))\<close>\<close>

definition SIGN :: "int \<Rightarrow> int \<Rightarrow> int" where
  "SIGN x y = (x XOR asr y 31) - asr y 31"

definition fastMin :: "int \<Rightarrow> int \<Rightarrow> int" where
  "fastMin x y = y + ((x - y) AND asr (x - y) 31)"

text \<open>
  \<^verbatim>\<open>getICRate\<close>. \<open>absLevel\<close> and the Rice parameters are \<^verbatim>\<open>uint32_t\<close>, \<open>diffLevel\<close> is an
  \<^verbatim>\<open>int32_t\<close>, the rate an \<^verbatim>\<open>int\<close>. The two tables are the rows \<^verbatim>\<open>greaterOneBits[oneCtx]\<close>
  and \<^verbatim>\<open>levelAbsBits[absCtx]\<close>.
\<close>

definition getICRate ::
  "BuildConsts \<Rightarrow> int \<Rightarrow> int \<Rightarrow> (nat \<Rightarrow> int) \<Rightarrow> (nat \<Rightarrow> int) \<Rightarrow> int \<Rightarrow> int \<Rightarrow> int" where
  "getICRate K absLevel diffLevel gOneBits lAbsBits absGoRice c1c2Idx =
     (if absLevel = 0 then 0
      else if diffLevel < 0
      then (let rate = gOneBits (if absLevel = 2 then 1 else 0)
            in if absLevel = 2 then rate + lAbsBits 0 else rate)
      else
        let symbol = u32 diffLevel;
            maxVlc = g_goRiceRange K ! nat absGoRice;
            expGolomb = (symbol > maxVlc);
            rate = (if expGolomb
                    then (let absLevel' = u32 (symbol - maxVlc);
                              egs = int (CLZ32 (nat absLevel')) * 2 + 1
                          in push_bit 15 egs)
                    else 0);
            symbol' = (if expGolomb then u32 (maxVlc + 1) else symbol);
            prefLen = u32 (drop_bit (nat absGoRice) symbol' + 1);
            numBins = u32 (fastMin (s32 (u32 (prefLen + absGoRice))) 8);
            rate1 = s32 (rate + push_bit 15 numBins);
            rate2 = (if c1c2Idx AND 1 \<noteq> 0 then rate1 + gOneBits 1 else rate1)
        in if c1c2Idx = 3 then rate2 + lAbsBits 1 else rate2)"

text \<open>\<^verbatim>\<open>getICRateCost\<close>: the cost of an absolute level (a \<^verbatim>\<open>uint32_t\<close>).\<close>

definition getICRateCost ::
  "BuildConsts \<Rightarrow> int \<Rightarrow> int \<Rightarrow> (nat \<Rightarrow> int) \<Rightarrow> (nat \<Rightarrow> int) \<Rightarrow> int \<Rightarrow> int \<Rightarrow> int" where
  "getICRateCost K absLevel diffLevel gOneBits lAbsBits absGoRice c1c2Idx =
     (if diffLevel < 0
      then (let rate = u32 (gOneBits (if absLevel = 2 then 1 else 0))
            in if absLevel = 2 then u32 (rate + lAbsBits 0) else rate)
      else
        let symbol = u32 diffLevel;
            rate = (if drop_bit (nat absGoRice) symbol < COEF_REMAIN_BIN_REDUCTION K
                    then (let len = drop_bit (nat absGoRice) symbol
                          in u32 (push_bit 15 (len + 1 + absGoRice)))
                    else (let symbol' = u32 (drop_bit (nat absGoRice) symbol - COEF_REMAIN_BIN_REDUCTION K);
                              len = (if symbol' \<noteq> 0 then int (CLZ32 (nat (u32 (symbol' + 1)))) else 0)
                          in u32 (push_bit 15 (COEF_REMAIN_BIN_REDUCTION K + len + absGoRice + 1 + len))));
            rate1 = (if c1c2Idx AND 1 \<noteq> 0 then u32 (rate + gOneBits 1) else rate)
        in if c1c2Idx = 3 then u32 (rate1 + lAbsBits 1) else rate1)"

section \<open>Context derivation (quant.cpp, lines 1014-1121)\<close>

text \<open>\<^verbatim>\<open>sigCoeffGroupFlag64\<close> is a \<^verbatim>\<open>uint64_t\<close>, the positions and sizes are \<^verbatim>\<open>uint32_t\<close>.\<close>

definition calcPatternSigCtx :: "64 word \<Rightarrow> int \<Rightarrow> int \<Rightarrow> nat \<Rightarrow> int" where
  "calcPatternSigCtx sigCoeffGroupFlag64 cgPosX cgPosY log2TrSizeCG' =
     (if log2TrSizeCG' = 0 then 0
      else
        let trSizeCG = push_bit log2TrSizeCG' 1;
            sigPos = u32 (uint (drop_bit (nat (1 + push_bit log2TrSizeCG' cgPosY + cgPosX)) sigCoeffGroupFlag64));
            sigRight = u32 (asr (s32 (cgPosX - (trSizeCG - 1))) 31) AND (sigPos AND 1);
            sigLower = u32 (asr (s32 (cgPosY - (trSizeCG - 1))) 31) AND drop_bit (nat (trSizeCG - 2)) sigPos AND 2
        in u32 (sigRight + sigLower))"

definition ctxIndMap :: "int list" where
  "ctxIndMap = [0, 1, 4, 5, 2, 3, 4, 5, 6, 6, 8, 8, 7, 7, 8, 8]"

definition table_cnt :: "int list list list" where
  "table_cnt =
     [[[2, 1, 1, 0], [1, 1, 0, 0], [1, 0, 0, 0], [0, 0, 0, 0]],
      [[2, 1, 0, 0], [2, 1, 0, 0], [2, 1, 0, 0], [2, 1, 0, 0]],
      [[2, 2, 2, 2], [1, 1, 1, 1], [0, 0, 0, 0], [0, 0, 0, 0]],
      [[2, 2, 2, 2], [2, 2, 2, 2], [2, 2, 2, 2], [2, 2, 2, 2]]]"

definition getSigCtxInc :: "int \<Rightarrow> nat \<Rightarrow> int \<Rightarrow> nat \<Rightarrow> bool \<Rightarrow> nat \<Rightarrow> int" where
  "getSigCtxInc patternSigCtx log2TrSize trSize blkPos bIsLuma firstSignificanceMapContext' =
     (if blkPos = 0 then 0
      else if log2TrSize = 2 then ctxIndMap ! blkPos
      else
        let posY = drop_bit log2TrSize (int blkPos);
            posX = int blkPos AND (trSize - 1);
            posXinSubset = int blkPos AND 3;
            posYinSubset = posY AND 3;
            cnt = table_cnt ! nat patternSigCtx ! nat posXinSubset ! nat posYinSubset;
            offset = int firstSignificanceMapContext' + cnt
        in if bIsLuma \<and> (posX OR posY) \<ge> 4 then 3 + offset else offset)"

definition getRateLast :: "BuildConsts \<Rightarrow> EstBitsSbac \<Rightarrow> int \<Rightarrow> int \<Rightarrow> int" where
  "getRateLast K est posx posy =
     (let ctxX = getGroupIdx K posx;
          ctxY = getGroupIdx K posy;
          cost = u32 (lastXBits est (nat ctxX) + lastYBits est (nat ctxY));
          maskX = asr (s32 (2 - posx)) 31;
          maskY = asr (s32 (2 - posy)) 31;
          cost1 = u32 (cost + u32 (maskX AND u32 (IEP_RATE K * drop_bit 1 (u32 (ctxX - 2)))))
      in u32 (cost1 + u32 (maskY AND u32 (IEP_RATE K * drop_bit 1 (u32 (ctxY - 2))))))"

definition getSigCoeffGroupCtxInc :: "64 word \<Rightarrow> int \<Rightarrow> int \<Rightarrow> nat \<Rightarrow> int" where
  "getSigCoeffGroupCtxInc cgGroupMask cgPosX cgPosY log2TrSizeCG' =
     (let trSizeCG = push_bit log2TrSizeCG' 1;
          sigPos = u32 (uint (drop_bit (nat (1 + push_bit log2TrSizeCG' cgPosY + cgPosX)) cgGroupMask));
          sigRight = u32 (asr (s32 (cgPosX - (trSizeCG - 1))) 31) AND sigPos;
          sigLower = u32 (asr (s32 (cgPosY - (trSizeCG - 1))) 31) AND drop_bit (nat (trSizeCG - 1)) sigPos
      in (sigRight OR sigLower) AND 1)"

section \<open>Primitives (primitives.h and the C reference kernels, not under src/)\<close>

text \<open>
  Modelled from the spec: \<^verbatim>\<open>primitives.quant\<close>, the scalar quantizer of section 4.D, is not
  under src/. For each coefficient \<open>absLevel = (|dct| * quantCoef + add) >> qbits\<close>, the
  sign is re-applied and the output clamped to the signed 16-bit interval;
  \<open>deltaU = (|dct| * quantCoef - (absLevel << qbits)) >> (qbits - 8)\<close>; the result \<open>numSig\<close>
  is the number of non-zero output levels. The model returns \<open>(numSig, deltaU, levels)\<close>.
\<close>

definition quant_absLevel :: "int \<Rightarrow> int \<Rightarrow> int \<Rightarrow> int \<Rightarrow> int" where
  "quant_absLevel dct quantCoef qBits add = asr (\<bar>dct\<bar> * quantCoef + add) (nat qBits)"

definition quant_level :: "int \<Rightarrow> int \<Rightarrow> int \<Rightarrow> int \<Rightarrow> int" where
  "quant_level dct quantCoef qBits add =
     Clip3 (- 32768) 32767
       (if dct < 0 then - quant_absLevel dct quantCoef qBits add
        else quant_absLevel dct quantCoef qBits add)"

definition quant :: "int list \<Rightarrow> int list \<Rightarrow> int \<Rightarrow> int \<Rightarrow> nat \<Rightarrow> int \<times> int list \<times> int list" where
  "quant coef quantCoeff qBits add numCoeff =
     (let levels = map (\<lambda>i. quant_level (coef ! i) (quantCoeff ! i) qBits add) [0..<numCoeff];
          dU = map (\<lambda>i. asr (\<bar>coef ! i\<bar> * (quantCoeff ! i)
                               - push_bit (nat qBits) (quant_absLevel (coef ! i) (quantCoeff ! i) qBits add))
                            (nat (qBits - 8))) [0..<numCoeff]
      in (count_nonzero levels, dU, levels))"

text \<open>
  Modelled from the spec: \<^verbatim>\<open>primitives.nquant\<close> is not under src/. By section 4.E, step 1,
  it is the initial scalar quantization of RDOQ, which yields the candidate levels and the
  raw \<open>scaledCoeff = |dct| * quantCoef\<close>, and the number of non-zero levels. The model
  returns \<open>(numSig, scaledCoeff, levels)\<close>.
\<close>

definition nquant :: "int list \<Rightarrow> int list \<Rightarrow> int \<Rightarrow> int \<Rightarrow> nat \<Rightarrow> int \<times> int list \<times> int list" where
  "nquant coef quantCoeff qBits add numCoeff =
     (let levels = map (\<lambda>i. quant_level (coef ! i) (quantCoeff ! i) qBits add) [0..<numCoeff];
          scaled = map (\<lambda>i. \<bar>coef ! i\<bar> * (quantCoeff ! i)) [0..<numCoeff]
      in (count_nonzero levels, scaled, levels))"

text \<open>
  The other kernels the orchestrator calls are parameters of the model: the forward
  transforms \<^verbatim>\<open>dct[index]\<close>, the transform-skip conversions and \<^verbatim>\<open>square_copy_ps\<close>. Each
  returns the buffer it fills. \<open>p_cvt16to32_cnt_ret\<close> is the integer that the kernel
  \<^verbatim>\<open>cvt16to32_cnt\<close> returns for a block size, a residual buffer and a stride.
\<close>

record EncoderPrimitives =
  p_dct :: "int \<Rightarrow> 16 word list \<Rightarrow> nat \<Rightarrow> int list"
  p_cvt16to32_shl :: "16 word list \<Rightarrow> nat \<Rightarrow> int \<Rightarrow> int \<Rightarrow> int list"
  p_cvt16to32_shr :: "nat \<Rightarrow> 16 word list \<Rightarrow> nat \<Rightarrow> int \<Rightarrow> int \<Rightarrow> int list"
  p_square_copy_ps :: "nat \<Rightarrow> int \<Rightarrow> pixel list \<Rightarrow> nat \<Rightarrow> 16 word list"
  p_cvt16to32_cnt_ret :: "nat \<Rightarrow> 16 word list \<Rightarrow> nat \<Rightarrow> int"

text \<open>
  Modelled from the spec: \<^verbatim>\<open>primitives.cvt16to32_cnt\<close> is not under src/. The spec says of
  the bypass path that the residual is copied verbatim into the levels: the residual block
  is read with its stride, the levels are written densely. The integer the kernel returns
  is not described by anything under src/; it is left to the parameter
  \<open>p_cvt16to32_cnt_ret\<close>. The model returns that integer and the level array.
\<close>

definition cvt16to32_cnt :: "EncoderPrimitives \<Rightarrow> nat \<Rightarrow> 16 word list \<Rightarrow> nat \<Rightarrow> int \<times> int list" where
  "cvt16to32_cnt P trSize residual stride =
     (p_cvt16to32_cnt_ret P trSize residual stride,
      map (\<lambda>i. sint (residual ! ((i div trSize) * stride + i mod trSize))) [0..<trSize * trSize])"

section \<open>rdoQuant: locals and state (quant.cpp, lines 483-565)\<close>

text \<open>
  The values \<^verbatim>\<open>rdoQuant\<close> computes before its loops and does not change afterwards, with
  the members and tables it reads: \<open>e_resi\<close> is \<^verbatim>\<open>m_resiDctCoeff\<close>, \<open>e_fenc\<close> is
  \<^verbatim>\<open>m_fencDctCoeff\<close>, \<open>e_lambda2\<close> is \<^verbatim>\<open>m_lambdas[ttype]\<close>, \<open>e_cp\<close> is \<^verbatim>\<open>codeParams\<close>.
\<close>

record 'd rdoq_env =
  e_K :: BuildConsts
  e_D :: "'d fp_ops"
  e_est :: EstBitsSbac
  e_log2TrSize :: nat
  e_trSize :: int
  e_per :: int
  e_qbits :: int
  e_unquantScale :: "int list"
  e_unquantShift :: int
  e_unquantRound :: int
  e_unquantPreshift :: int
  e_scaleBits :: int
  e_lambda2 :: 'd
  e_bIsLuma :: bool
  e_usePsy :: bool
  e_psyRdoqScale :: int
  e_resi :: "int list"
  e_fenc :: "int list"
  e_scaledCoeff :: "int list"
  e_cp :: TUEntropyCodingParameters

record 'd coeffGroupRDStats =
  nnzBeforePos0 :: int
  codedLevelAndDist :: 'd
  uncodedDist :: 'd
  sigCost :: 'd
  sigCost0 :: 'd

text \<open>
  The variables the loops of \<^verbatim>\<open>rdoQuant\<close> change. The arrays on the stack have
  \<open>32 * 32\<close> entries and are not initialised in the source; the model keeps their first
  \<open>numCoeff\<close> entries, the ones the loops index, and starts them filled with zeros (the code
  reads only entries it has written). \<open>costCoeff\<close>, \<open>costUncoded\<close> and \<open>costSig\<close> are indexed by scan
  position, the rate arrays and \<open>deltaU\<close> by block position.
\<close>

record 'd rdoq_state =
  dstCoeff :: "int list"
  costCoeff :: "'d list"
  costUncoded :: "'d list"
  costSig :: "'d list"
  rateIncUp :: "int list"
  rateIncDown :: "int list"
  sigRateDelta :: "int list"
  deltaU :: "int list"
  costCoeffGroupSig :: "'d list"
  sigCoeffGroupFlag64 :: "64 word"
  ctxSet :: int
  c1 :: int
  c2 :: int
  goRiceParam :: int
  c1Idx :: int
  c2Idx :: int
  cgLastScanPos :: int
  lastScanPos :: int
  totalRdCost :: 'd
  totalUncodedCost :: 'd
  cgRdStats :: "'d coeffGroupRDStats"

section \<open>rdoQuant: one coefficient (quant.cpp, lines 579-738)\<close>

text \<open>
  The psy-rdoq term \<^verbatim>\<open>(int)(((m_psyRdoqScale * x) << scaleBits) >> 8)\<close>, computed in
  \<^verbatim>\<open>uint64_t\<close> and cast to \<^verbatim>\<open>int\<close>.
\<close>

definition psy_term :: "'d rdoq_env \<Rightarrow> int \<Rightarrow> int" where
  "psy_term E x =
     s32 (drop_bit 8 (u64 (push_bit (nat (e_scaleBits E)) (u64 (e_psyRdoqScale E * x)))))"

text \<open>Lines 592-595: the cost of not coding the coefficient at \<open>blkPos\<close>.\<close>

definition rdoq_costUncoded :: "'d rdoq_env \<Rightarrow> nat \<Rightarrow> 'd" where
  "rdoq_costUncoded E blkPos =
     (let signCoef = e_resi E ! blkPos;
          predictedCoef = e_fenc E ! blkPos - signCoef;
          cu = fp_of_int (e_D E) (u64 (push_bit (nat (e_scaleBits E)) (u64 (signCoef * signCoef))))
      in if e_usePsy E \<and> blkPos \<noteq> 0
         then fp_sub (e_D E) cu (fp_of_int (e_D E) (psy_term E predictedCoef))
         else cu)"

text \<open>Line 620 and 621: \<open>c1c2Idx\<close> and \<open>baseLevel\<close>.\<close>

definition rdoq_c1c2Idx :: "'d rdoq_state \<Rightarrow> int" where
  "rdoq_c1c2Idx st =
     u32 (drop_bit 31 (u32 (c1Idx st - 8)) + (asr (s32 (- c2Idx st)) 31 + 1) * 2)"

definition rdoq_baseLevel :: "int \<Rightarrow> int" where
  "rdoq_baseLevel c1c2Idx = drop_bit (nat (c1c2Idx * 2)) 217 AND 3"

text \<open>
  Lines 633-650: the initial values of \<open>costCoeff[scanPos]\<close> and \<open>costSig[scanPos]\<close>, the
  new \<open>sigRateDelta[blkPos]\<close> and \<open>sigCoefBits\<close>, in this order.
\<close>

definition rdoq_sig :: "'d rdoq_env \<Rightarrow> int \<Rightarrow> nat \<Rightarrow> nat \<Rightarrow> int \<Rightarrow> 'd rdoq_state
    \<Rightarrow> 'd \<times> 'd \<times> int \<times> int" where
  "rdoq_sig E patternSigCtx scanPos blkPos maxAbsLevel st =
     (if int scanPos = lastScanPos st
      then (MAX_DOUBLE (e_D E), costSig st ! scanPos, 0, 0)
      else
        let ctxSig = nat (getSigCtxInc patternSigCtx (e_log2TrSize E) (e_trSize E) blkPos
                       (e_bIsLuma E) (firstSignificanceMapContext (e_cp E)));
            sig0 = significantBits (e_est E) ctxSig 0;
            sig1 = significantBits (e_est E) ctxSig 1;
            cs = (if maxAbsLevel < 3 then fp_mul (e_D E) (e_lambda2 E) (fp_of_int (e_D E) sig0)
                  else costSig st ! scanPos);
            cc = (if maxAbsLevel < 3 then fp_add (e_D E) (costUncoded st ! scanPos) cs
                  else MAX_DOUBLE (e_D E))
        in (cc, cs, sig1 - sig0, u32 sig1))"

text \<open>
  Lines 656-676: the body of the loop over the candidate levels. The state is
  \<open>(level, costCoeff[scanPos], costSig[scanPos])\<close>.
\<close>

definition rdoq_try_level ::
  "'d rdoq_env \<Rightarrow> nat \<Rightarrow> int \<Rightarrow> int \<Rightarrow> (nat \<Rightarrow> int) \<Rightarrow> (nat \<Rightarrow> int) \<Rightarrow> int \<Rightarrow> int \<Rightarrow> int
     \<Rightarrow> int \<times> 'd \<times> 'd \<Rightarrow> int \<times> 'd \<times> 'd" where
  "rdoq_try_level E blkPos c1c2Idx baseLevel gOneBits lAbsBits goRice sigCoefBits lvl acc =
     (let signCoef = e_resi E ! blkPos;
          predictedCoef = e_fenc E ! blkPos - signCoef;
          levelBits = u32 (getICRateCost (e_K E) lvl (s32 (u32 (lvl - baseLevel))) gOneBits lAbsBits
                             goRice c1c2Idx + IEP_RATE (e_K E));
          unquantAbsLevel =
            s32 (drop_bit (nat (e_unquantShift E))
                   (u32 (u32 (push_bit (nat (e_unquantPreshift E)) lvl)
                          * push_bit (nat (e_per E)) (e_unquantScale E ! blkPos)
                         + e_unquantRound E)));
          d = unquantAbsLevel - \<bar>signCoef\<bar>;
          distortion = u64 (push_bit (nat (e_scaleBits E)) (u64 (d * d)));
          curCost = fp_add (e_D E) (fp_of_int (e_D E) distortion)
                      (fp_mul (e_D E) (e_lambda2 E) (fp_of_int (e_D E) (u32 (sigCoefBits + levelBits))));
          curCost' = (if e_usePsy E \<and> blkPos \<noteq> 0
                      then (let reconCoef = \<bar>unquantAbsLevel + SIGN predictedCoef signCoef\<bar>
                            in fp_sub (e_D E) curCost (fp_of_int (e_D E) (psy_term E reconCoef)))
                      else curCost)
      in if fp_less (e_D E) curCost' (fst (snd acc))
         then (lvl, curCost', fp_mul (e_D E) (e_lambda2 E) (fp_of_int (e_D E) sigCoefBits))
         else acc)"

text \<open>
  Lines 651-677: \<^verbatim>\<open>for (lvl = maxAbsLevel; lvl >= minAbsLevel; lvl--)\<close> with
  \<^verbatim>\<open>minAbsLevel = X265_MAX(maxAbsLevel - 1, 1)\<close>, when \<open>maxAbsLevel\<close> is not zero.
\<close>

definition rdoq_levels ::
  "'d rdoq_env \<Rightarrow> nat \<Rightarrow> int \<Rightarrow> int \<Rightarrow> (nat \<Rightarrow> int) \<Rightarrow> (nat \<Rightarrow> int) \<Rightarrow> int \<Rightarrow> int \<Rightarrow> int
     \<Rightarrow> 'd \<Rightarrow> 'd \<Rightarrow> int \<times> 'd \<times> 'd" where
  "rdoq_levels E blkPos c1c2Idx baseLevel gOneBits lAbsBits goRice sigCoefBits maxAbsLevel cc cs =
     (if maxAbsLevel \<noteq> 0
      then (let minAbsLevel = max (u32 (maxAbsLevel - 1)) 1
            in fold (rdoq_try_level E blkPos c1c2Idx baseLevel gOneBits lAbsBits goRice sigCoefBits)
                 (rev [minAbsLevel..maxAbsLevel]) (0, cc, cs))
      else (0, cc, cs))"

text \<open>Lines 683-694: \<open>rateIncUp[blkPos]\<close> and \<open>rateIncDown[blkPos]\<close>.\<close>

definition rdoq_rates ::
  "BuildConsts \<Rightarrow> int \<Rightarrow> int \<Rightarrow> (nat \<Rightarrow> int) \<Rightarrow> (nat \<Rightarrow> int) \<Rightarrow> int \<Rightarrow> int \<Rightarrow> int \<times> int" where
  "rdoq_rates K level baseLevel gOneBits lAbsBits goRice c1c2Idx =
     (if level \<noteq> 0
      then (let rateNow = getICRate K level (s32 (u32 (level - baseLevel))) gOneBits lAbsBits goRice c1c2Idx
            in (getICRate K (u32 (level + 1)) (s32 (u32 (level + 1 - baseLevel))) gOneBits lAbsBits
                  goRice c1c2Idx - rateNow,
                getICRate K (u32 (level - 1)) (s32 (u32 (level - 1 - baseLevel))) gOneBits lAbsBits
                  goRice c1c2Idx - rateNow))
      else (gOneBits 0, 0))"

text \<open>Lines 696-724: the update of the CABAC estimation state.\<close>

definition rdoq_cabac_update :: "bool \<Rightarrow> nat \<Rightarrow> int \<Rightarrow> int \<Rightarrow> 'd rdoq_state \<Rightarrow> 'd rdoq_state" where
  "rdoq_cabac_update bIsLuma scanPos level baseLevel st =
     (let st1 = (if level \<ge> baseLevel \<and> goRiceParam st < 4 \<and> level > push_bit (nat (goRiceParam st)) 3
                 then st\<lparr> goRiceParam := goRiceParam st + 1 \<rparr> else st);
          st2 = st1\<lparr> c1Idx := u32 (c1Idx st1 - asr (s32 (- level)) 31) \<rparr>;
          st3 = (if level > 1
                 then st2\<lparr> c1 := 0, c2 := s32 (c2 st2 + drop_bit 31 (u32 (c2 st2 - 2))),
                            c2Idx := u32 (c2Idx st2 + 1) \<rparr>
                 else if c1 st2 < 3 \<and> c1 st2 > 0 \<and> level \<noteq> 0
                      then st2\<lparr> c1 := c1 st2 + 1 \<rparr> else st2)
      in if scanPos mod SCAN_SET_SIZE = 0 \<and> scanPos \<noteq> 0
         then st3\<lparr> c2 := 0, goRiceParam := 0, c1Idx := 0, c2Idx := 0,
                   ctxSet := u32 ((if scanPos = SCAN_SET_SIZE \<or> \<not> bIsLuma then 0 else 2)
                                   - asr (s32 (c1 st3 - 1)) 31),
                   c1 := 1 \<rparr>
         else st3)"

text \<open>Lines 618-725: the branch of a coefficient at or before the last non-zero one.\<close>

definition rdoq_coded :: "'d rdoq_env \<Rightarrow> int \<Rightarrow> nat \<Rightarrow> nat \<Rightarrow> 'd rdoq_state \<Rightarrow> 'd rdoq_state" where
  "rdoq_coded E patternSigCtx scanPos blkPos st =
     (let maxAbsLevel = \<bar>dstCoeff st ! blkPos\<bar>;
          c1c2Idx = rdoq_c1c2Idx st;
          baseLevel = rdoq_baseLevel c1c2Idx;
          gOneBits = greaterOneBits (e_est E) (nat (u32 (4 * ctxSet st + c1 st)));
          lAbsBits = levelAbsBits (e_est E) (nat (u32 (ctxSet st + c2 st)));
          sg = rdoq_sig E patternSigCtx scanPos blkPos maxAbsLevel st;
          sigCoefBits = snd (snd (snd sg));
          lv = rdoq_levels E blkPos c1c2Idx baseLevel gOneBits lAbsBits (goRiceParam st) sigCoefBits
                 maxAbsLevel (fst sg) (fst (snd sg));
          level = fst lv;
          rates = rdoq_rates (e_K E) level baseLevel gOneBits lAbsBits (goRiceParam st) c1c2Idx;
          st1 = st\<lparr> sigRateDelta := (sigRateDelta st)[blkPos := fst (snd (snd sg))],
                    costCoeff := (costCoeff st)[scanPos := fst (snd lv)],
                    costSig := (costSig st)[scanPos := snd (snd lv)],
                    deltaU := (deltaU st)[blkPos :=
                       asr (e_scaledCoeff E ! blkPos - push_bit (nat (e_qbits E)) level)
                           (nat (e_qbits E - 8))],
                    dstCoeff := (dstCoeff st)[blkPos := level],
                    totalRdCost := fp_add (e_D E) (totalRdCost st) (fst (snd lv)),
                    rateIncUp := (rateIncUp st)[blkPos := fst rates],
                    rateIncDown := (rateIncDown st)[blkPos := snd rates] \<rparr>
      in rdoq_cabac_update (e_bIsLuma E) scanPos level baseLevel st1)"

text \<open>Lines 727-737: the statistics of the coefficient group.\<close>

definition rdoq_cg_stats :: "'d fp_ops \<Rightarrow> nat \<Rightarrow> nat \<Rightarrow> nat \<Rightarrow> 64 word \<Rightarrow> 'd rdoq_state \<Rightarrow> 'd rdoq_state" where
  "rdoq_cg_stats D scanPos blkPos scanPosinCG cgBlkPosMask st =
     (let g = cgRdStats st;
          g1 = g\<lparr> sigCost := fp_add D (sigCost g) (costSig st ! scanPos) \<rparr>;
          g2 = (if scanPosinCG = 0 then g1\<lparr> sigCost0 := costSig st ! scanPos \<rparr> else g1)
      in if dstCoeff st ! blkPos \<noteq> 0
         then st\<lparr> sigCoeffGroupFlag64 := sigCoeffGroupFlag64 st OR cgBlkPosMask,
                   cgRdStats := g2\<lparr>
                     codedLevelAndDist := fp_add D (codedLevelAndDist g2)
                                            (fp_sub D (costCoeff st ! scanPos) (costSig st ! scanPos)),
                     uncodedDist := fp_add D (uncodedDist g2) (costUncoded st ! scanPos),
                     nnzBeforePos0 := nnzBeforePos0 g2 + int scanPosinCG \<rparr> \<rparr>
         else st\<lparr> cgRdStats := g2 \<rparr>)"

text \<open>Lines 579-738: the body of the loop over the coefficients of a group.\<close>

definition rdoq_coeff :: "'d rdoq_env \<Rightarrow> nat \<Rightarrow> int \<Rightarrow> 64 word \<Rightarrow> nat \<Rightarrow> 'd rdoq_state \<Rightarrow> 'd rdoq_state" where
  "rdoq_coeff E cgScanPos patternSigCtx cgBlkPosMask scanPosinCG st =
     (let scanPos = push_bit MLS_CG_SIZE cgScanPos + scanPosinCG;
          blkPos = scan (e_cp E) ! scanPos;
          maxAbsLevel = \<bar>dstCoeff st ! blkPos\<bar>;
          cu = rdoq_costUncoded E blkPos;
          st1 = st\<lparr> costUncoded := (costUncoded st)[scanPos := cu],
                    totalUncodedCost := fp_add (e_D E) (totalUncodedCost st) cu \<rparr>;
          st2 = (if maxAbsLevel \<noteq> 0 \<and> lastScanPos st1 < 0
                 then st1\<lparr> lastScanPos := int scanPos,
                           ctxSet := (if scanPos < SCAN_SET_SIZE \<or> \<not> e_bIsLuma E then 0 else 2),
                           cgLastScanPos := int cgScanPos \<rparr>
                 else st1);
          st3 = (if lastScanPos st2 < 0
                 then st2\<lparr> costCoeff := (costCoeff st2)[scanPos := fp_of_int (e_D E) 0],
                           totalRdCost := fp_add (e_D E) (totalRdCost st2) cu,
                           costSig := (costSig st2)[scanPos := fp_of_int (e_D E) 0] \<rparr>
                 else rdoq_coded E patternSigCtx scanPos blkPos st2)
      in rdoq_cg_stats (e_D E) scanPos blkPos scanPosinCG cgBlkPosMask st3)"

section \<open>rdoQuant: one coefficient group (quant.cpp, lines 568-806)\<close>

text \<open>Lines 789-800: all levels of the group are reset to zero.\<close>

definition rdoq_uncode_coeff :: "'d rdoq_env \<Rightarrow> nat \<Rightarrow> nat \<Rightarrow> 'd rdoq_state \<Rightarrow> 'd rdoq_state" where
  "rdoq_uncode_coeff E cgScanPos scanPosinCG st =
     (let scanPos = cgScanPos * 2 ^ MLS_CG_SIZE + scanPosinCG;
          blkPos = scan (e_cp E) ! scanPos;
          st1 = (if dstCoeff st ! blkPos \<noteq> 0
                 then st\<lparr> costCoeff := (costCoeff st)[scanPos := costUncoded st ! scanPos],
                          costSig := (costSig st)[scanPos := fp_of_int (e_D E) 0] \<rparr>
                 else st)
      in st1\<lparr> dstCoeff := (dstCoeff st1)[blkPos := 0] \<rparr>)"

text \<open>
  Lines 740-788: the summary of the costs of the group. The second component of the result
  tells whether the group is changed to an all-zero group (the test of line 783 succeeded);
  the state returned has then the three assignments of lines 785-787 done.
\<close>

definition rdoq_cg_summary_costs ::
  "'d rdoq_env \<Rightarrow> nat \<Rightarrow> int \<Rightarrow> int \<Rightarrow> 64 word \<Rightarrow> 'd rdoq_state \<Rightarrow> 'd rdoq_state \<times> bool" where
  "rdoq_cg_summary_costs E cgScanPos cgPosX cgPosY cgBlkPosMask st =
     (let D = e_D E; lambda2 = e_lambda2 E in
      if cgLastScanPos st \<ge> 0
      then
        let st1 = st\<lparr> costCoeffGroupSig := (costCoeffGroupSig st)[cgScanPos := fp_of_int D 0] \<rparr> in
        if cgScanPos = 0
        then (st1\<lparr> sigCoeffGroupFlag64 := sigCoeffGroupFlag64 st1 OR cgBlkPosMask \<rparr>, False)
        else if sigCoeffGroupFlag64 st1 AND cgBlkPosMask = 0
        then
          let ctxSig = nat (getSigCoeffGroupCtxInc (sigCoeffGroupFlag64 st1) cgPosX cgPosY
                              (log2TrSizeCG (e_cp E)));
              c = fp_mul D lambda2 (fp_of_int D (significantCoeffGroupBits (e_est E) ctxSig 0))
          in (st1\<lparr> costCoeffGroupSig := (costCoeffGroupSig st1)[cgScanPos := c],
                   totalRdCost := fp_sub D (fp_add D (totalRdCost st1) c) (sigCost (cgRdStats st1)) \<rparr>,
              False)
        else if int cgScanPos < cgLastScanPos st1
        then
          let sigCtx = nat (getSigCoeffGroupCtxInc (sigCoeffGroupFlag64 st1) cgPosX cgPosY
                              (log2TrSizeCG (e_cp E)));
              g = cgRdStats st1;
              st2 = (if nnzBeforePos0 g = 0
                     then st1\<lparr> totalRdCost := fp_sub D (totalRdCost st1) (sigCost0 g),
                               cgRdStats := g\<lparr> sigCost := fp_sub D (sigCost g) (sigCost0 g) \<rparr> \<rparr>
                     else st1);
              g2 = cgRdStats st2;
              costZeroCG = fp_sub D (fp_sub D (fp_add D
                             (fp_add D (totalRdCost st2)
                                (fp_mul D lambda2 (fp_of_int D (significantCoeffGroupBits (e_est E) sigCtx 0))))
                             (uncodedDist g2)) (codedLevelAndDist g2)) (sigCost g2);
              c1' = fp_mul D lambda2 (fp_of_int D (significantCoeffGroupBits (e_est E) sigCtx 1));
              st3 = st2\<lparr> costCoeffGroupSig := (costCoeffGroupSig st2)[cgScanPos := c1'],
                        totalRdCost := fp_add D (totalRdCost st2) c1' \<rparr>
          in if fp_less D costZeroCG (totalRdCost st3)
             then (st3\<lparr> sigCoeffGroupFlag64 := sigCoeffGroupFlag64 st3 AND NOT cgBlkPosMask,
                        totalRdCost := costZeroCG,
                        costCoeffGroupSig := (costCoeffGroupSig st3)[cgScanPos :=
                           fp_mul D lambda2 (fp_of_int D (significantCoeffGroupBits (e_est E) sigCtx 0))] \<rparr>,
                   True)
             else (st3, False)
        else (st1, False)
      else (st, False))"

text \<open>Lines 740-805: the summary, with the loop of lines 790-800 that resets the levels.\<close>

definition rdoq_cg_summary ::
  "'d rdoq_env \<Rightarrow> nat \<Rightarrow> int \<Rightarrow> int \<Rightarrow> 64 word \<Rightarrow> 'd rdoq_state \<Rightarrow> 'd rdoq_state" where
  "rdoq_cg_summary E cgScanPos cgPosX cgPosY cgBlkPosMask st =
     (let r = rdoq_cg_summary_costs E cgScanPos cgPosX cgPosY cgBlkPosMask st
      in if snd r then for_down (rdoq_uncode_coeff E cgScanPos) (2 ^ MLS_CG_SIZE) (fst r)
         else fst r)"

text \<open>Lines 568-806: the body of the loop over the coefficient groups.\<close>

definition rdoq_cg :: "'d rdoq_env \<Rightarrow> nat \<Rightarrow> 'd rdoq_state \<Rightarrow> 'd rdoq_state" where
  "rdoq_cg E cgScanPos st =
     (let cgBlkPos = scanCG (e_cp E) ! cgScanPos;
          cgPosY = drop_bit (log2TrSizeCG (e_cp E)) (int cgBlkPos);
          cgPosX = int cgBlkPos - push_bit (log2TrSizeCG (e_cp E)) cgPosY;
          cgBlkPosMask = push_bit cgBlkPos (1 :: 64 word);
          zero = fp_of_int (e_D E) 0;
          st0 = st\<lparr> cgRdStats := \<lparr> nnzBeforePos0 = 0, codedLevelAndDist = zero, uncodedDist = zero,
                                    sigCost = zero, sigCost0 = zero \<rparr> \<rparr>;
          patternSigCtx = calcPatternSigCtx (sigCoeffGroupFlag64 st0) cgPosX cgPosY
                            (log2TrSizeCG (e_cp E));
          st1 = for_down (rdoq_coeff E cgScanPos patternSigCtx cgBlkPosMask) (2 ^ MLS_CG_SIZE) st0
      in rdoq_cg_summary E cgScanPos cgPosX cgPosY cgBlkPosMask st1)"

section \<open>rdoQuant: the last position (quant.cpp, lines 814-873)\<close>

record 'd rdoq_last =
  l_totalRdCost :: 'd
  bestCost :: 'd
  bestLastIdx :: int
  foundLast :: bool

text \<open>
  Lines 839-872: the body of the inner loop. Once \<open>foundLast\<close> is set the loop is left
  (\<^verbatim>\<open>break\<close>), and the outer loop ends: the remaining iterations do nothing.
\<close>

definition rdoq_last_coeff ::
  "'d rdoq_env \<Rightarrow> 'd rdoq_state \<Rightarrow> nat \<Rightarrow> nat \<Rightarrow> 'd rdoq_last \<Rightarrow> 'd rdoq_last" where
  "rdoq_last_coeff E st cgScanPos scanPosinCG s =
     (let D = e_D E; scanPos = cgScanPos * 2 ^ MLS_CG_SIZE + scanPosinCG in
      if foundLast s then s
      else if int scanPos > lastScanPos st then s
      else
        let blkPos = scan (e_cp E) ! scanPos in
        if dstCoeff st ! blkPos \<noteq> 0
        then
          let posY = drop_bit (e_log2TrSize E) (int blkPos);
              posX = int blkPos - push_bit (e_log2TrSize E) posY;
              bitsLast = (if scanType (e_cp E) = SCAN_VER then getRateLast (e_K E) (e_est E) posY posX
                          else getRateLast (e_K E) (e_est E) posX posY);
              rdCostLast = fp_sub D (fp_add D (l_totalRdCost s)
                                       (fp_mul D (e_lambda2 E) (fp_of_int D bitsLast)))
                             (costSig st ! scanPos);
              s1 = (if fp_less D rdCostLast (bestCost s)
                    then s\<lparr> bestLastIdx := int scanPos + 1, bestCost := rdCostLast \<rparr> else s)
          in if dstCoeff st ! blkPos > 1
             then s1\<lparr> foundLast := True \<rparr>
             else s1\<lparr> l_totalRdCost := fp_add D (fp_sub D (l_totalRdCost s1) (costCoeff st ! scanPos))
                                          (costUncoded st ! scanPos) \<rparr>
        else s\<lparr> l_totalRdCost := fp_sub D (l_totalRdCost s) (costSig st ! scanPos) \<rparr>)"

definition rdoq_last_cg :: "'d rdoq_env \<Rightarrow> 'd rdoq_state \<Rightarrow> nat \<Rightarrow> 'd rdoq_last \<Rightarrow> 'd rdoq_last" where
  "rdoq_last_cg E st cgScanPos s =
     (if foundLast s then s
      else
        let cgBlkPos = scanCG (e_cp E) ! cgScanPos;
            s1 = s\<lparr> l_totalRdCost := fp_sub (e_D E) (l_totalRdCost s) (costCoeffGroupSig st ! cgScanPos) \<rparr>
        in if sigCoeffGroupFlag64 st AND push_bit cgBlkPos 1 = 0 then s1
           else for_down (rdoq_last_coeff E st cgScanPos) (2 ^ MLS_CG_SIZE) s1)"

text \<open>
  Lines 814-873: the cost of the uncoded block and the search. \<open>rootCbf\<close> is the condition
  \<^verbatim>\<open>!cu->isIntra(absPartIdx) && bIsLuma && !cu->getTransformIdx(absPartIdx)\<close>, \<open>ctx\<close> the
  value of \<^verbatim>\<open>cu->getCtxQtCbf(...)\<close>.
\<close>

definition rdoq_last_search :: "'d rdoq_env \<Rightarrow> bool \<Rightarrow> nat \<Rightarrow> 'd rdoq_state \<Rightarrow> 'd rdoq_last" where
  "rdoq_last_search E rootCbf ctx st =
     (let D = e_D E;
          cbf = (if rootCbf then blockRootCbpBits (e_est E) 0 else blockCbpBits (e_est E) ctx);
          s0 = \<lparr> l_totalRdCost = fp_add D (totalRdCost st) (fp_mul D (e_lambda2 E) (fp_of_int D (cbf 1))),
                 bestCost = fp_add D (totalUncodedCost st) (fp_mul D (e_lambda2 E) (fp_of_int D (cbf 0))),
                 bestLastIdx = 0, foundLast = False \<rparr>
      in for_down (rdoq_last_cg E st) (nat (cgLastScanPos st + 1)) s0)"

section \<open>rdoQuant: recount, clean-up (quant.cpp, lines 875-889)\<close>

text \<open>
  Lines 877-885. The state is \<open>(numSig, dstCoeff)\<close>. \<^verbatim>\<open>mask\<close> is the sign word of the DCT
  coefficient, \<open>0\<close> or all ones; \<^verbatim>\<open>(level ^ mask) - mask\<close> is computed on the two's complement
  integers.
\<close>

definition rdoq_recount_step :: "int list \<Rightarrow> nat list \<Rightarrow> nat \<Rightarrow> int \<times> int list \<Rightarrow> int \<times> int list" where
  "rdoq_recount_step resi scn pos acc =
     (let blkPos = scn ! pos;
          level = snd acc ! blkPos;
          mask = asr (resi ! blkPos) 31
      in (u32 (fst acc + (if level \<noteq> 0 then 1 else 0)),
          (snd acc)[blkPos := (level XOR mask) - mask]))"

definition rdoq_recount :: "int list \<Rightarrow> nat list \<Rightarrow> int \<Rightarrow> int list \<Rightarrow> int \<times> int list" where
  "rdoq_recount resi scn bestLastIdx' dst =
     fold (rdoq_recount_step resi scn) [0..<nat bestLastIdx'] (0, dst)"

text \<open>Lines 888-889.\<close>

definition rdoq_clean :: "nat list \<Rightarrow> int \<Rightarrow> int \<Rightarrow> int list \<Rightarrow> int list" where
  "rdoq_clean scn bestLastIdx' lastScanPos' dst =
     fold (\<lambda>pos d. d[scn ! pos := 0]) [nat bestLastIdx'..<nat (lastScanPos' + 1)] dst"

section \<open>rdoQuant: rate-distortion based sign-hiding (quant.cpp, lines 891-1009)\<close>

text \<open>\<^verbatim>\<open>absSum\<close> is an \<^verbatim>\<open>int\<close> here, compared through \<^verbatim>\<open>absSum & 1U\<close>.\<close>

definition rdoq_absSum :: "int list \<Rightarrow> nat list \<Rightarrow> nat \<Rightarrow> nat \<Rightarrow> nat \<Rightarrow> int" where
  "rdoq_absSum coeff scn subPos firstNZ lastNZ =
     fold (\<lambda>n absSum. absSum + coeff ! (scn ! (n + subPos))) [firstNZ..<Suc lastNZ] 0"

text \<open>
  Lines 941-990: the body of the search loop at \<open>n\<close>. The costs are \<^verbatim>\<open>int64_t\<close>, modelled as
  integers.
\<close>

definition rdoq_sbh_search_step ::
  "int list \<Rightarrow> int list \<Rightarrow> 'd rdoq_state \<Rightarrow> nat list \<Rightarrow> int \<Rightarrow> bool \<Rightarrow> nat \<Rightarrow> nat \<Rightarrow> nat \<Rightarrow> int
     \<Rightarrow> nat \<Rightarrow> sbh_search \<Rightarrow> sbh_search" where
  "rdoq_sbh_search_step dst resi st scn rdFactor lastCG subPos lastNZPosInCG firstNZPosInCG signbit n s =
     (let blkPos = scn ! (n + subPos);
          s1 = (if dst ! blkPos \<noteq> 0
                then
                  let costUp = rdFactor * (- (deltaU st ! blkPos)) + rateIncUp st ! blkPos;
                      isOne = (\<bar>dst ! blkPos\<bar> = 1);
                      costDown0 = rdFactor * (deltaU st ! blkPos) + rateIncDown st ! blkPos
                                    - (if isOne then push_bit 15 1 + sigRateDelta st ! blkPos else 0);
                      costDown = (if lastCG \<and> lastNZPosInCG = n \<and> isOne
                                  then costDown0 - push_bit 15 4 else costDown0)
                  in if costUp < costDown
                     then s\<lparr> curCost := costUp, curChange := 1 \<rparr>
                     else if n = firstNZPosInCG \<and> isOne
                          then s\<lparr> curChange := - 1, curCost := MAX_INT64 \<rparr>
                          else s\<lparr> curChange := - 1, curCost := costDown \<rparr>
                else
                  let cost = rdFactor * (- \<bar>deltaU st ! blkPos\<bar>) + push_bit 15 1
                               + rateIncUp st ! blkPos + sigRateDelta st ! blkPos;
                      s' = s\<lparr> curCost := cost, curChange := 1 \<rparr>
                  in if n < firstNZPosInCG
                     then (let thissignbit = (if resi ! blkPos \<ge> 0 then 0 else 1 :: int)
                           in if thissignbit \<noteq> signbit then s'\<lparr> curCost := MAX_INT64 \<rparr> else s')
                     else s')
      in sbh_select blkPos s1)"

text \<open>
  Lines 898-1008: the body of the loop over the groups. The state is
  \<open>(numSig, dstCoeff, lastCG)\<close>.
\<close>

definition rdoq_sbh_cg ::
  "int list \<Rightarrow> 'd rdoq_state \<Rightarrow> nat list \<Rightarrow> int \<Rightarrow> nat \<Rightarrow> int \<times> int list \<times> bool
     \<Rightarrow> (int \<times> int list \<times> bool) option" where
  "rdoq_sbh_cg resi st scn rdFactor subSet acc =
     (case acc of (numSig, dst, lastCG) \<Rightarrow>
        let subPos = push_bit LOG2_SCAN_SET_SIZE subSet;
            n = lastNZ_from dst scn subPos SCAN_SET_SIZE
        in if n < 0 then Some acc
           else
             let lastNZPosInCG = nat n;
                 firstNZPosInCG = firstNZ_loop dst scn subPos lastNZPosInCG 0
             in if int lastNZPosInCG - int firstNZPosInCG \<ge> SBH_THRESHOLD
                then
                  let signbit = (if dst ! (scn ! (subPos + firstNZPosInCG)) > 0 then 0 else 1 :: int);
                      absSum = rdoq_absSum dst scn subPos firstNZPosInCG lastNZPosInCG
                  in if signbit \<noteq> u32 absSum AND 1
                     then
                       let s0 = \<lparr> minCostInc = MAX_INT64, minPos = - 1, finalChange = 0,
                                  curCost = MAX_INT64, curChange = 0 \<rparr>;
                           s = fold (rdoq_sbh_search_step dst resi st scn rdFactor lastCG subPos
                                       lastNZPosInCG firstNZPosInCG signbit)
                                 (rev [0..<Suc (if lastCG then lastNZPosInCG else SCAN_SET_SIZE - 1)]) s0
                       in (case sbh_apply dst resi numSig (minPos s) (finalChange s) of
                             None \<Rightarrow> None
                           | Some (numSig', dst') \<Rightarrow> Some (numSig', dst', False))
                     else Some (numSig, dst, False)
                else Some (numSig, dst, False))"

text \<open>
  Lines 892-1009, entered when sign hiding is enabled and \<open>numSig >= 2\<close>. \<open>invQuant\<close> is
  \<^verbatim>\<open>ScalingList::s_invQuantScales[rem] << per\<close>.
\<close>

definition rdoq_signhide ::
  "'d rdoq_env \<Rightarrow> int \<Rightarrow> 'd rdoq_state \<Rightarrow> int \<Rightarrow> int list \<Rightarrow> (int \<times> int list) option" where
  "rdoq_signhide E invQuant st numSig dst =
     (let D = e_D E;
          rdFactor = fp_to_int64 D (fp_add D (fp_div D (fp_of_int D (invQuant * invQuant))
                                               (fp_mul D (e_lambda2 E) (fp_of_int D 16))) (fp_half D))
      in case fold (\<lambda>subSet r. case r of None \<Rightarrow> None
                                | Some acc \<Rightarrow> rdoq_sbh_cg (e_resi E) st (scan (e_cp E)) rdFactor subSet acc)
                (rev [0..<nat (cgLastScanPos st + 1)]) (Some (numSig, dst, True)) of
           None \<Rightarrow> None
         | Some (numSig', dst', lastCG) \<Rightarrow> Some (numSig', dst'))"

section \<open>The Quant object\<close>

text \<open>
  The noise reduction state \<^verbatim>\<open>m_nr\<close> and the members of \<^verbatim>\<open>Quant\<close> (quant.h is not under
  src/; the members are those quant.cpp uses). \<open>m_quantCoef\<close> and \<open>m_dequantCoef\<close> are the
  tables of \<^verbatim>\<open>m_scalingList\<close>, indexed by size, list type and \<open>rem\<close>.
\<close>

record NoiseReduction =
  bNoiseReduction :: bool
  residualSum :: "int \<Rightarrow> int list"
  offsetDenoise :: "int \<Rightarrow> int list"
  nr_count :: "int \<Rightarrow> int"

record 'd Quant =
  m_useRDOQ :: bool
  m_psyRdoqScale :: int
  m_quantCoef :: "nat \<Rightarrow> int \<Rightarrow> int \<Rightarrow> int list"
  m_dequantCoef :: "nat \<Rightarrow> int \<Rightarrow> int \<Rightarrow> int list"
  m_scalingListEnabled :: bool
  s_invQuantScales :: "int list"
  m_resiDctCoeff :: "int list"
  m_fencDctCoeff :: "int list"
  m_fencShortBuf :: "16 word list"
  m_qpParam :: "TextType \<Rightarrow> QpParam"
  m_lambdas :: "TextType \<Rightarrow> 'd"
  m_estBitsSbac :: EstBitsSbac
  m_nr :: NoiseReduction

section \<open>denoiseDct (quant.cpp, lines 52-63)\<close>

definition denoiseDct_step :: "int list \<Rightarrow> nat \<Rightarrow> int list \<times> int list \<Rightarrow> int list \<times> int list" where
  "denoiseDct_step offset i acc =
     (let level = fst acc ! i;
          sign = asr level 31;
          level1 = (level + sign) XOR sign;
          resSum' = (snd acc)[i := u32 (snd acc ! i + level1)];
          level2 = level1 - offset ! i
      in ((fst acc)[i := (if level2 < 0 then 0 else (level2 XOR sign) - sign)], resSum'))"

definition denoiseDct :: "int list \<Rightarrow> int list \<Rightarrow> int list \<Rightarrow> nat \<Rightarrow> int list \<times> int list" where
  "denoiseDct dctCoef resSum offset numCoeff =
     fold (denoiseDct_step offset) [0..<numCoeff] (dctCoef, resSum)"

section \<open>rdoQuant (quant.cpp, lines 483-1012)\<close>

text \<open>
  \<^verbatim>\<open>Quant::rdoQuant\<close>. The result is \<open>(numSig, dstCoeff, bestLastIdx)\<close>: the returned count,
  the level array, and the value of the local variable \<open>bestLastIdx\<close> when the function
  got as far as computing it (it is not returned by the source; claim C3 speaks of it).
  The result is \<open>None\<close> when sign hiding indexes outside the array.
\<close>

definition rdoq_init_state :: "'d fp_ops \<Rightarrow> nat \<Rightarrow> int list \<Rightarrow> 'd rdoq_state" where
  "rdoq_init_state D numCoeff dst0 =
     \<lparr> dstCoeff = dst0,
       costCoeff = replicate numCoeff (fp_of_int D 0),
       costUncoded = replicate numCoeff (fp_of_int D 0),
       costSig = replicate numCoeff (fp_of_int D 0),
       rateIncUp = replicate numCoeff 0,
       rateIncDown = replicate numCoeff 0,
       sigRateDelta = replicate numCoeff 0,
       deltaU = replicate numCoeff 0,
       costCoeffGroupSig = replicate 64 (fp_of_int D 0),
       sigCoeffGroupFlag64 = 0,
       ctxSet = 0, c1 = 1, c2 = 0, goRiceParam = 0, c1Idx = 0, c2Idx = 0,
       cgLastScanPos = - 1, lastScanPos = - 1,
       totalRdCost = fp_of_int D 0, totalUncodedCost = fp_of_int D 0,
       cgRdStats = \<lparr> nnzBeforePos0 = 0, codedLevelAndDist = fp_of_int D 0,
                     uncodedDist = fp_of_int D 0, sigCost = fp_of_int D 0, sigCost0 = fp_of_int D 0 \<rparr> \<rparr>"

text \<open>Lines 485-530 and 560-562: the locals, given the output of \<^verbatim>\<open>nquant\<close>.\<close>

definition rdoq_make_env ::
  "BuildConsts \<Rightarrow> 'd fp_ops \<Rightarrow> 'd Quant \<Rightarrow> TComDataCU \<Rightarrow> nat \<Rightarrow> TextType \<Rightarrow> bool \<Rightarrow> int list
     \<Rightarrow> 'd rdoq_env" where
  "rdoq_make_env K D Q cu log2TrSize ttype usePsy scaledCoeff =
     (let transformShift = MAX_TR_DYNAMIC_RANGE K - X265_DEPTH K - int log2TrSize;
          scalingListType = (if cuIsIntra cu then 0 else 3) + ttype_int ttype;
          rem' = rem (m_qpParam Q ttype);
          per' = per (m_qpParam Q ttype);
          unquantShift0 = QUANT_IQUANT_SHIFT K - QUANT_SHIFT K - transformShift + 4;
          bIsLuma = (ttype = TEXT_LUMA)
      in \<lparr> e_K = K, e_D = D, e_est = m_estBitsSbac Q,
           e_log2TrSize = log2TrSize,
           e_trSize = push_bit log2TrSize 1,
           e_per = per',
           e_qbits = QUANT_SHIFT K + per' + transformShift,
           e_unquantScale = m_dequantCoef Q (log2TrSize - 2) scalingListType rem',
           e_unquantShift = (if unquantShift0 > per' then unquantShift0 else unquantShift0 + 4),
           e_unquantRound = (if unquantShift0 > per' then push_bit (nat (unquantShift0 - per' - 1)) 1 else 0),
           e_unquantPreshift = (if unquantShift0 > per' then 0 else 4),
           e_scaleBits = SCALE_BITS K - 2 * transformShift,
           e_lambda2 = m_lambdas Q ttype,
           e_bIsLuma = bIsLuma,
           e_usePsy = usePsy,
           e_psyRdoqScale = m_psyRdoqScale Q,
           e_resi = m_resiDctCoeff Q,
           e_fenc = m_fencDctCoeff Q,
           e_scaledCoeff = scaledCoeff,
           e_cp = tuCodeParams cu log2TrSize bIsLuma \<rparr>)"

text \<open>Lines 568-1011: everything after the early return on \<open>numSig = 0\<close>.\<close>

definition rdoq_body ::
  "'d rdoq_env \<Rightarrow> TComDataCU \<Rightarrow> TextType \<Rightarrow> int \<Rightarrow> int list \<Rightarrow> (int \<times> int list \<times> int option) option" where
  "rdoq_body E cu ttype invQuant dst0 =
     (let cgNum = push_bit (log2TrSizeCG (e_cp E) * 2) (1 :: nat);
          st = for_down (rdoq_cg E) cgNum
                 (rdoq_init_state (e_D E) (push_bit (e_log2TrSize E * 2) 1) dst0)
      in if lastScanPos st < 0 then Some (0, dstCoeff st, None)
         else
           let s = rdoq_last_search E (\<not> cuIsIntra cu \<and> e_bIsLuma E \<and> transformIdx cu = 0)
                     (ctxQtCbf cu ttype) st;
               rc = rdoq_recount (e_resi E) (scan (e_cp E)) (bestLastIdx s) (dstCoeff st);
               dst2 = rdoq_clean (scan (e_cp E)) (bestLastIdx s) (lastScanPos st) (snd rc)
           in if bSignHideEnabled cu \<and> fst rc \<ge> 2
              then (case rdoq_signhide E invQuant st (fst rc) dst2 of
                      None \<Rightarrow> None
                    | Some (numSig', dst') \<Rightarrow> Some (numSig', dst', Some (bestLastIdx s)))
              else Some (fst rc, dst2, Some (bestLastIdx s)))"

definition rdoQuant_run ::
  "BuildConsts \<Rightarrow> 'd fp_ops \<Rightarrow> 'd Quant \<Rightarrow> TComDataCU \<Rightarrow> nat \<Rightarrow> TextType \<Rightarrow> bool
     \<Rightarrow> (int \<times> int list \<times> int option) option" where
  "rdoQuant_run K D Q cu log2TrSize ttype usePsy =
     (let transformShift = MAX_TR_DYNAMIC_RANGE K - X265_DEPTH K - int log2TrSize;
          scalingListType = (if cuIsIntra cu then 0 else 3) + ttype_int ttype;
          rem' = rem (m_qpParam Q ttype);
          per' = per (m_qpParam Q ttype);
          qbits = QUANT_SHIFT K + per' + transformShift;
          add = push_bit (nat (qbits - 1)) 1;
          qCoef = m_quantCoef Q (log2TrSize - 2) scalingListType rem';
          numCoeff = push_bit (log2TrSize * 2) (1 :: nat);
          nq = nquant (m_resiDctCoeff Q) qCoef qbits add numCoeff
      in if fst nq = 0 then Some (0, snd (snd nq), None)
         else rdoq_body (rdoq_make_env K D Q cu log2TrSize ttype usePsy (fst (snd nq))) cu ttype
                (push_bit (nat per') (s_invQuantScales Q ! nat rem')) (snd (snd nq)))"

definition rdoQuant ::
  "BuildConsts \<Rightarrow> 'd fp_ops \<Rightarrow> 'd Quant \<Rightarrow> TComDataCU \<Rightarrow> nat \<Rightarrow> TextType \<Rightarrow> bool
     \<Rightarrow> (int \<times> int list) option" where
  "rdoQuant K D Q cu log2TrSize ttype usePsy =
     map_option (\<lambda>r. (fst r, fst (snd r))) (rdoQuant_run K D Q cu log2TrSize ttype usePsy)"

section \<open>transformNxN (quant.cpp, lines 325-409)\<close>

text \<open>
  Lines 341-381: the forward transform into \<^verbatim>\<open>m_resiDctCoeff\<close>, the transform of the source
  pixels for psy-rdoq and the noise reduction. \<^verbatim>\<open>#if X265_DEPTH <= 10\<close> is a test of the
  build constant.
\<close>

definition transform_forward ::
  "BuildConsts \<Rightarrow> EncoderPrimitives \<Rightarrow> 'd Quant \<Rightarrow> TComDataCU \<Rightarrow> pixel list \<Rightarrow> nat \<Rightarrow> 16 word list
     \<Rightarrow> nat \<Rightarrow> nat \<Rightarrow> TextType \<Rightarrow> bool \<Rightarrow> 'd Quant" where
  "transform_forward K P Q cu fenc fencStride residual stride log2TrSize ttype useTransformSkip =
     (let isLuma = (ttype = TEXT_LUMA);
          usePsy = (m_psyRdoqScale Q \<noteq> 0 \<and> isLuma \<and> \<not> useTransformSkip);
          isIntra = cuIsIntra cu;
          transformShift = MAX_TR_DYNAMIC_RANGE K - X265_DEPTH K - int log2TrSize;
          trSize = push_bit log2TrSize (1 :: int)
      in if useTransformSkip
         then (if X265_DEPTH K \<le> 10 \<or> transformShift \<ge> 0
               then Q\<lparr> m_resiDctCoeff := p_cvt16to32_shl P residual stride transformShift trSize \<rparr>
               else Q\<lparr> m_resiDctCoeff := p_cvt16to32_shr P (log2TrSize - 2) residual stride
                         (- transformShift) (push_bit (nat (- transformShift - 1)) 1) \<rparr>)
         else
           let sizeIdx = log2TrSize - 2;
               useDST = (if sizeIdx = 0 \<and> isLuma \<and> isIntra then 1 else 0 :: int);
               index = DCT_4x4 K + int sizeIdx - useDST;
               Q1 = Q\<lparr> m_resiDctCoeff := p_dct P index residual stride \<rparr>;
               Q2 = (if usePsy
                     then (let buf = p_square_copy_ps P sizeIdx trSize fenc fencStride
                           in Q1\<lparr> m_fencShortBuf := buf, m_fencDctCoeff := p_dct P index buf (nat trSize) \<rparr>)
                     else Q1)
           in if bNoiseReduction (m_nr Q2) \<and> \<not> isIntra
              then (let cat = int sizeIdx + 4 * (if isLuma then 0 else 1);
                        numCoeff = push_bit (log2TrSize * 2) (1 :: nat);
                        dn = denoiseDct (m_resiDctCoeff Q2) (residualSum (m_nr Q2) cat)
                               (offsetDenoise (m_nr Q2) cat) numCoeff
                    in Q2\<lparr> m_resiDctCoeff := fst dn,
                           m_nr := (m_nr Q2)\<lparr> residualSum := (residualSum (m_nr Q2))(cat := snd dn),
                                              nr_count := (nr_count (m_nr Q2))(cat := u32 (nr_count (m_nr Q2) cat + 1)) \<rparr> \<rparr>)
              else Q2)"

text \<open>Lines 386-408: scalar quantization and sign-data hiding.\<close>

definition transform_scalar ::
  "BuildConsts \<Rightarrow> 'd Quant \<Rightarrow> TComDataCU \<Rightarrow> nat \<Rightarrow> TextType \<Rightarrow> (int \<times> int list) option" where
  "transform_scalar K Q cu log2TrSize ttype =
     (let isLuma = (ttype = TEXT_LUMA);
          transformShift = MAX_TR_DYNAMIC_RANGE K - X265_DEPTH K - int log2TrSize;
          scalingListType = ttype_int ttype + (if isLuma then 3 else 0);
          rem' = rem (m_qpParam Q ttype);
          per' = per (m_qpParam Q ttype);
          quantCoeff = m_quantCoef Q (log2TrSize - 2) scalingListType rem';
          qbits = QUANT_SHIFT K + per' + transformShift;
          add = push_bit (nat (qbits - 9)) (if sliceIsI cu then 171 else 85);
          numCoeff = push_bit (log2TrSize * 2) (1 :: nat);
          q = quant (m_resiDctCoeff Q) quantCoeff qbits add numCoeff
      in if fst q \<ge> 2 \<and> bSignHideEnabled cu
         then signBitHidingHDQ (m_resiDctCoeff Q) (snd (snd q)) (fst (snd q)) (fst q)
                (tuCodeParams cu log2TrSize isLuma)
         else Some (fst q, snd (snd q)))"

text \<open>
  \<^verbatim>\<open>Quant::transformNxN\<close>. The result is \<open>(numSig, coeff)\<close> and the Quant object as the call
  leaves it.
\<close>

definition transformNxN ::
  "BuildConsts \<Rightarrow> 'd fp_ops \<Rightarrow> EncoderPrimitives \<Rightarrow> 'd Quant \<Rightarrow> TComDataCU \<Rightarrow> pixel list \<Rightarrow> nat
     \<Rightarrow> 16 word list \<Rightarrow> nat \<Rightarrow> nat \<Rightarrow> TextType \<Rightarrow> bool \<Rightarrow> ((int \<times> int list) \<times> 'd Quant) option" where
  "transformNxN K D P Q cu fenc fencStride residual stride log2TrSize ttype useTransformSkip =
     (if cuTransquantBypass cu
      then Some (cvt16to32_cnt P (push_bit log2TrSize 1) residual stride, Q)
      else
        let usePsy = (m_psyRdoqScale Q \<noteq> 0 \<and> ttype = TEXT_LUMA \<and> \<not> useTransformSkip);
            Q' = transform_forward K P Q cu fenc fencStride residual stride log2TrSize ttype useTransformSkip
        in map_option (\<lambda>r. (r, Q'))
             (if m_useRDOQ Q' then rdoQuant K D Q' cu log2TrSize ttype usePsy
              else transform_scalar K Q' cu log2TrSize ttype))"

section \<open>invtransformNxN (quant.cpp, lines 411-479)\<close>

text \<open>
  The kernels of the inverse path are parameters of the model: the two dequantizers, the
  transform-skip conversions and the inverse transforms \<^verbatim>\<open>idct[index]\<close>. A kernel that
  writes into the residual block takes the buffer and returns it updated.
\<close>

record InversePrimitives =
  p_dequant_scaling :: "int list \<Rightarrow> int list \<Rightarrow> nat \<Rightarrow> int \<Rightarrow> int \<Rightarrow> int list"
  p_dequant_normal :: "int list \<Rightarrow> nat \<Rightarrow> int \<Rightarrow> int \<Rightarrow> int list"
  p_cvt32to16_shr :: "16 word list \<Rightarrow> int list \<Rightarrow> nat \<Rightarrow> int \<Rightarrow> int \<Rightarrow> 16 word list"
  p_cvt32to16_shl :: "nat \<Rightarrow> 16 word list \<Rightarrow> int list \<Rightarrow> nat \<Rightarrow> int \<Rightarrow> 16 word list"
  p_idct :: "int \<Rightarrow> int list \<Rightarrow> 16 word list \<Rightarrow> nat \<Rightarrow> 16 word list"

text \<open>
  Modelled from the spec: \<^verbatim>\<open>primitives.blockfill_s\<close> is not under src/. By section 4.B the
  value of the DC fast path is replicated into every sample of the block: the \<open>size\<close> by
  \<open>size\<close> samples of the residual block, whose rows are \<open>stride\<close> apart.
\<close>

definition blockfill_s :: "nat \<Rightarrow> 16 word list \<Rightarrow> nat \<Rightarrow> 16 word \<Rightarrow> 16 word list" where
  "blockfill_s sz dst stride val =
     fold (\<lambda>y d. fold (\<lambda>x d'. d'[y * stride + x := val]) [0..<sz] d) [0..<sz] dst"

text \<open>Lines 416-419: the copy loop of the bypass path, with the cast \<^verbatim>\<open>(int16_t)\<close>.\<close>

definition inv_bypass_copy :: "nat \<Rightarrow> 16 word list \<Rightarrow> nat \<Rightarrow> int list \<Rightarrow> 16 word list" where
  "inv_bypass_copy trSize residual stride coeff =
     fold (\<lambda>k r. fold (\<lambda>j r'. r'[k * stride + j := word_of_int (coeff ! (k * trSize + j))])
                    [0..<trSize] r) [0..<trSize] residual"

text \<open>Line 471: the value of the DC fast path, from the dequantized DC coefficient.\<close>

definition dc_val :: "BuildConsts \<Rightarrow> int \<Rightarrow> int" where
  "dc_val K resi0 =
     (let shift_1st = 7;
          add_1st = push_bit (shift_1st - 1) 1;
          shift_2nd = nat (12 - (X265_DEPTH K - 8));
          add_2nd = push_bit (shift_2nd - 1) 1
      in asr (asr (resi0 * 64 + add_1st) shift_1st * 64 + add_2nd) shift_2nd)"

text \<open>
  Lines 423-440: the dequantization into \<^verbatim>\<open>m_resiDctCoeff\<close>.
\<close>

definition inv_dequant ::
  "BuildConsts \<Rightarrow> InversePrimitives \<Rightarrow> 'd Quant \<Rightarrow> int list \<Rightarrow> nat \<Rightarrow> TextType \<Rightarrow> bool \<Rightarrow> int list" where
  "inv_dequant K P Q coeff log2TrSize ttype bIntra =
     (let rem' = rem (m_qpParam Q ttype);
          per' = per (m_qpParam Q ttype);
          transformShift = MAX_TR_DYNAMIC_RANGE K - X265_DEPTH K - int log2TrSize;
          shift = QUANT_IQUANT_SHIFT K - QUANT_SHIFT K - transformShift;
          numCoeff = push_bit (log2TrSize * 2) (1 :: nat)
      in if m_scalingListEnabled Q
         then (let scalingListType = (if bIntra then 0 else 3) + ttype_int ttype
               in p_dequant_scaling P coeff (m_dequantCoef Q (log2TrSize - 2) scalingListType rem')
                    numCoeff per' shift)
         else p_dequant_normal P coeff numCoeff (push_bit (nat per') (s_invQuantScales Q ! nat rem')) shift)"

text \<open>
  \<^verbatim>\<open>Quant::invtransformNxN\<close>. The result is the residual buffer and the Quant object as the
  call leaves them. The flag \<open>dcFastPath\<close> is not in the source: with \<open>True\<close> the model is
  the function as written; with \<open>False\<close> the test of line 464 is skipped and the inverse
  transform is always called, which is the full inverse pipeline that claim C6 compares
  the fast path with.
\<close>

definition invtransform_core ::
  "bool \<Rightarrow> BuildConsts \<Rightarrow> InversePrimitives \<Rightarrow> 'd Quant \<Rightarrow> bool \<Rightarrow> 16 word list \<Rightarrow> nat \<Rightarrow> int list
     \<Rightarrow> nat \<Rightarrow> TextType \<Rightarrow> bool \<Rightarrow> bool \<Rightarrow> int \<Rightarrow> 16 word list \<times> 'd Quant" where
  "invtransform_core dcFastPath K P Q transQuantBypass residual stride coeff log2TrSize ttype bIntra
       useTransformSkip numSig =
     (if transQuantBypass
      then (inv_bypass_copy (push_bit log2TrSize 1) residual stride coeff, Q)
      else
        let transformShift = MAX_TR_DYNAMIC_RANGE K - X265_DEPTH K - int log2TrSize;
            Q' = Q\<lparr> m_resiDctCoeff := inv_dequant K P Q coeff log2TrSize ttype bIntra \<rparr>
        in if useTransformSkip
           then (if X265_DEPTH K \<le> 10 \<or> transformShift \<ge> 0
                 then (p_cvt32to16_shr P residual (m_resiDctCoeff Q') stride transformShift
                         (push_bit log2TrSize 1), Q')
                 else (p_cvt32to16_shl P (log2TrSize - 2) residual (m_resiDctCoeff Q') stride
                         (- transformShift), Q'))
           else
             let sizeIdx = log2TrSize - 2;
                 useDST = (sizeIdx = 0 \<and> ttype = TEXT_LUMA \<and> bIntra)
             in if dcFastPath \<and> numSig = 1 \<and> coeff ! 0 \<noteq> 0 \<and> \<not> useDST
                then (blockfill_s (push_bit log2TrSize 1) residual stride
                        (word_of_int (dc_val K (m_resiDctCoeff Q' ! 0))), Q')
                else (p_idct P (IDCT_4x4 K + int sizeIdx - (if useDST then 1 else 0))
                        (m_resiDctCoeff Q') residual stride, Q'))"

definition invtransformNxN ::
  "BuildConsts \<Rightarrow> InversePrimitives \<Rightarrow> 'd Quant \<Rightarrow> bool \<Rightarrow> 16 word list \<Rightarrow> nat \<Rightarrow> int list
     \<Rightarrow> nat \<Rightarrow> TextType \<Rightarrow> bool \<Rightarrow> bool \<Rightarrow> int \<Rightarrow> 16 word list \<times> 'd Quant" where
  "invtransformNxN = invtransform_core True"

section \<open>The inverse transform kernels, from the spec\<close>

text \<open>
  Modelled from the spec: the kernels \<^verbatim>\<open>idct[index]\<close> are not under src/. By section 4.B
  they follow HEVC: two passes with the transform matrix, right shifts of \<open>7\<close> for the
  first pass and \<open>12 - (depth - 8)\<close> for the second, rounding by \<open>1 << (shift - 1)\<close>; the
  samples and the intermediate values are 16-bit. \<open>T k i\<close> is the entry of the transform
  matrix for basis function \<open>k\<close> at sample \<open>i\<close>; the matrix itself is a parameter. One pass
  transforms along the first index and writes its result transposed.
\<close>

definition idct_pass :: "(nat \<Rightarrow> nat \<Rightarrow> int) \<Rightarrow> nat \<Rightarrow> nat \<Rightarrow> int list \<Rightarrow> int list" where
  "idct_pass T N shift src =
     map (\<lambda>p. let j = p div N; i = p mod N
               in Clip3 (- 32768) 32767
                    (asr (sum_list (map (\<lambda>k. T k i * src ! (k * N + j)) [0..<N]) + push_bit (shift - 1) 1)
                         shift))
       [0..<N * N]"

definition spec_idct ::
  "(nat \<Rightarrow> nat \<Rightarrow> int) \<Rightarrow> BuildConsts \<Rightarrow> nat \<Rightarrow> int list \<Rightarrow> 16 word list \<Rightarrow> nat \<Rightarrow> 16 word list" where
  "spec_idct T K N src dst stride =
     (let block = map (\<lambda>x. sint (word_of_int x :: 16 word)) (take (N * N) src);
          coef = idct_pass T N 7 block;
          out = idct_pass T N (nat (12 - (X265_DEPTH K - 8))) coef
      in fold (\<lambda>y d. fold (\<lambda>x d'. d'[y * stride + x := word_of_int (out ! (y * N + x))]) [0..<N] d)
           [0..<N] dst)"

section \<open>Auxiliary predicates of the proofs about rdoQuant\<close>

text \<open>
  The scan table of a block of \<open>N\<close> coefficients: a permutation of the block positions.
\<close>

definition scan_ok :: "nat list \<Rightarrow> nat \<Rightarrow> bool" where
  "scan_ok scn N \<longleftrightarrow> length scn = N \<and> distinct scn \<and> (\<forall>x\<in>set scn. x < N)"

text \<open>
  The invariant of the main loop of \<^verbatim>\<open>rdoQuant\<close> when the scan positions from \<open>k\<close> upwards have
  been treated: \<open>d0\<close> is the level array that \<^verbatim>\<open>nquant\<close> left. Untreated levels are
  unchanged; a treated level lies between zero and the absolute value of the initial one;
  treated levels after \<open>lastScanPos\<close> are zero.
\<close>

definition rdoq_inv :: "nat list \<Rightarrow> int list \<Rightarrow> nat \<Rightarrow> 'd rdoq_state \<Rightarrow> bool" where
  "rdoq_inv scn d0 k st \<longleftrightarrow>
     length (dstCoeff st) = length d0
     \<and> lastScanPos st < int (length scn) \<and> (lastScanPos st < 0 \<or> int k \<le> lastScanPos st)
     \<and> (\<forall>q<length scn.
           (q < k \<longrightarrow> dstCoeff st ! (scn ! q) = d0 ! (scn ! q))
         \<and> (k \<le> q \<longrightarrow> 0 \<le> dstCoeff st ! (scn ! q) \<and> dstCoeff st ! (scn ! q) \<le> \<bar>d0 ! (scn ! q)\<bar>)
         \<and> (k \<le> q \<and> lastScanPos st < int q \<longrightarrow> dstCoeff st ! (scn ! q) = 0))"

text \<open>
  The invariant of the search of the last position: \<open>bestLastIdx\<close> is zero, or one more than
  a scan position, not after \<open>lastScanPos\<close>, that holds a non-zero level.
\<close>

definition last_inv :: "nat list \<Rightarrow> 'd rdoq_state \<Rightarrow> 'e rdoq_last \<Rightarrow> bool" where
  "last_inv scn st s \<longleftrightarrow>
     bestLastIdx s = 0
     \<or> (0 < bestLastIdx s \<and> bestLastIdx s \<le> lastScanPos st + 1
        \<and> dstCoeff st ! (scn ! nat (bestLastIdx s - 1)) \<noteq> 0)"

text \<open>
  A level with the sign of its DCT coefficient \<open>r\<close>; the levels after the recount and the
  clean-up, given the absolute levels \<open>a\<close> that the main loop left and \<open>B = bestLastIdx\<close>.
\<close>

definition signed_level :: "int \<Rightarrow> int \<Rightarrow> int" where
  "signed_level r level = (if r < 0 then - level else level)"

definition rdoq_out :: "nat list \<Rightarrow> int list \<Rightarrow> int list \<Rightarrow> nat \<Rightarrow> int list \<Rightarrow> bool" where
  "rdoq_out scn resi a B dst \<longleftrightarrow>
     length dst = length scn
     \<and> (\<forall>q<length scn. dst ! (scn ! q)
           = (if q < B then signed_level (resi ! (scn ! q)) (a ! (scn ! q)) else 0))"

text \<open>
  A candidate \<open>(p, f)\<close> of the search of the rate-distortion based sign hiding: the block
  position of a scan position \<open>n \<le> hi\<close> of the group and a change of \<open>+1\<close> or \<open>-1\<close> of the
  absolute level, \<open>+1\<close> where the level is zero. The invariant of the loop over the groups,
  before group \<open>m - 1\<close> is treated; the flag \<open>c\<close> tells whether \<open>numSig\<close> is the number of
  non-zero levels at the start.
\<close>

definition change_ok :: "int list \<Rightarrow> nat list \<Rightarrow> nat \<Rightarrow> nat \<Rightarrow> int \<Rightarrow> int \<Rightarrow> bool" where
  "change_ok dst scn subPos hi p f \<longleftrightarrow>
     (\<exists>n\<le>hi. p = int (scn ! (n + subPos)) \<and> (f = 1 \<or> f = - 1)
        \<and> (dst ! (scn ! (n + subPos)) = 0 \<longrightarrow> f = 1))"

definition sbh_state_ok ::
  "nat list \<Rightarrow> int list \<Rightarrow> bool \<Rightarrow> nat \<Rightarrow> nat \<Rightarrow> int \<times> int list \<times> bool \<Rightarrow> bool" where
  "sbh_state_ok scn resi c B m acc \<longleftrightarrow>
     (case acc of (numSig, dst, lastCG) \<Rightarrow>
        signs_match resi dst \<and> length dst = length scn \<and> (c \<longrightarrow> numSig = count_nonzero dst)
        \<and> (\<forall>q<length scn. B \<le> q \<longrightarrow> dst ! (scn ! q) = 0)
        \<and> (\<not> lastCG \<longrightarrow> 16 * m \<le> B))"

section \<open>Concrete inputs\<close>

text \<open>
  A 4 by 4 transform unit with the up-right diagonal scan: one coefficient group. In the
  block below the first and last non-zero levels are five scan positions apart, the first
  level is positive and the sum of the absolute levels is odd.
\<close>

definition ex_scan4 :: "nat list" where
  "ex_scan4 = [0, 4, 1, 8, 5, 2, 12, 9, 6, 3, 13, 10, 7, 14, 11, 15]"

definition ex_cp4 :: TUEntropyCodingParameters where
  "ex_cp4 = \<lparr> scan = ex_scan4, scanCG = [0], scanType = SCAN_DIAG, log2TrSizeCG = 0,
              firstSignificanceMapContext = 0 \<rparr>"

definition ex_hdq_resi :: "int list" where
  "ex_hdq_resi = [40, 0, 21, 0, 0, 9, 0, 0, 0, 0, 0, 0, 0, 0, 0, 0]"

definition ex_hdq_coeff :: "int list" where
  "ex_hdq_coeff = [2, 0, 1, 0, 0, 0, 0, 0, 0, 0, 0, 0, 0, 0, 0, 0]"

definition ex_hdq_deltaU :: "int list" where
  "ex_hdq_deltaU = [0, 0, 0, 0, 0, 100, 0, 0, 0, 0, 0, 0, 0, 0, 0, 0]"

text \<open>A reference array for a 4 by 4 block: top-left 0, top 0,0,0,0,100,100,100,100, left 0.\<close>

definition dc_cex_srcPix :: "pixel list" where
  "dc_cex_srcPix = [0, 0, 0, 0, 0, 100, 100, 100, 100, 0, 0, 0, 0, 0, 0, 0, 0]"

text \<open>
  A build and objects to run \<^verbatim>\<open>rdoQuant\<close> and \<^verbatim>\<open>transformNxN\<close> on: 8-bit depth with the
  constants of HEVC, costs computed in exact integer arithmetic (every cost of the runs
  below is an integer far below \<open>2^53\<close>, where IEEE doubles are exact), all CABAC bit costs
  zero, \<open>lambda = 1\<close>, flat quantization matrices for \<open>rem = 4\<close>, \<open>per = 0\<close>.
\<close>

definition ex_K :: BuildConsts where
  "ex_K = \<lparr> X265_DEPTH = 8, MAX_TR_DYNAMIC_RANGE = 15, QUANT_SHIFT = 14, QUANT_IQUANT_SHIFT = 20,
            SCALE_BITS = 15, IEP_RATE = 32768, COEF_REMAIN_BIN_REDUCTION = 3,
            g_goRiceRange = [7, 14, 26, 46, 78], getGroupIdx = (\<lambda>x. x), DCT_4x4 = 1, IDCT_4x4 = 1 \<rparr>"

definition ex_D :: "int fp_ops" where
  "ex_D = \<lparr> fp_of_int = (\<lambda>x. x), fp_add = (+), fp_sub = (-), fp_mul = (*), fp_div = (div),
            fp_less = (<), fp_to_int64 = (\<lambda>x. x), fp_half = 0, MAX_DOUBLE = 2 ^ 62 \<rparr>"

definition ex_est :: EstBitsSbac where
  "ex_est = \<lparr> significantCoeffGroupBits = (\<lambda>_ _. 0), significantBits = (\<lambda>_ _. 0),
              lastXBits = (\<lambda>_. 0), lastYBits = (\<lambda>_. 0), greaterOneBits = (\<lambda>_ _. 0),
              levelAbsBits = (\<lambda>_ _. 0), blockCbpBits = (\<lambda>_ _. 0), blockRootCbpBits = (\<lambda>_ _. 0) \<rparr>"

definition ex_Q :: "bool \<Rightarrow> int list \<Rightarrow> int Quant" where
  "ex_Q useRDOQ resi =
     \<lparr> m_useRDOQ = useRDOQ, m_psyRdoqScale = 0,
       m_quantCoef = (\<lambda>_ _ _. replicate 16 16384),
       m_dequantCoef = (\<lambda>_ _ _. replicate 16 1024),
       m_scalingListEnabled = False,
       s_invQuantScales = [40, 45, 51, 57, 64, 72],
       m_resiDctCoeff = resi, m_fencDctCoeff = replicate 16 0, m_fencShortBuf = [],
       m_qpParam = (\<lambda>_. setQpParam 4), m_lambdas = (\<lambda>_. 1), m_estBitsSbac = ex_est,
       m_nr = \<lparr> bNoiseReduction = False, residualSum = (\<lambda>_. []), offsetDenoise = (\<lambda>_. []),
                nr_count = (\<lambda>_. 0) \<rparr> \<rparr>"

definition ex_cu :: "bool \<Rightarrow> bool \<Rightarrow> TComDataCU" where
  "ex_cu bypass signHide =
     \<lparr> cuTransquantBypass = bypass, cuIsIntra = True, sliceIsI = True, bSignHideEnabled = signHide,
       transformIdx = 0, ctxQtCbf = (\<lambda>_. 0), tuCodeParams = (\<lambda>_ _. ex_cp4) \<rparr>"

text \<open>
  Forward kernels that return a fixed block of DCT coefficients; the bypass copy returns
  \<open>0\<close>.
\<close>

definition ex_P :: "int list \<Rightarrow> EncoderPrimitives" where
  "ex_P resi = \<lparr> p_dct = (\<lambda>_ _ _. resi), p_cvt16to32_shl = (\<lambda>_ _ _ _. resi),
                 p_cvt16to32_shr = (\<lambda>_ _ _ _ _. resi), p_square_copy_ps = (\<lambda>_ _ _ _. []),
                 p_cvt16to32_cnt_ret = (\<lambda>_ _ _. 0) \<rparr>"

text \<open>A block of DCT coefficients with the DC coefficient only.\<close>

definition ex_dc_resi :: "int list" where
  "ex_dc_resi = [40, 0, 0, 0, 0, 0, 0, 0, 0, 0, 0, 0, 0, 0, 0, 0]"

text \<open>A residual block with two non-zero samples.\<close>

definition ex_residual :: "16 word list" where
  "ex_residual = [3, 0, 0, 0, 0, - 2, 0, 0, 0, 0, 0, 0, 0, 0, 0, 0]"

text \<open>The HEVC transform matrix of size 4, and inverse kernels: dequantizers and conversions that
  copy, the inverse transform of the spec.\<close>

definition ex_T4 :: "nat \<Rightarrow> nat \<Rightarrow> int" where
  "ex_T4 k i = [[64, 64, 64, 64], [83, 36, - 36, - 83], [64, - 64, - 64, 64], [36, - 83, 83, - 36]] ! k ! i"

definition ex_IP :: InversePrimitives where
  "ex_IP = \<lparr> p_dequant_scaling = (\<lambda>coeff _ _ _ _. coeff),
             p_dequant_normal = (\<lambda>coeff _ _ _. coeff),
             p_cvt32to16_shr = (\<lambda>r _ _ _ _. r), p_cvt32to16_shl = (\<lambda>_ r _ _ _. r),
             p_idct = (\<lambda>_. spec_idct ex_T4 ex_K 4) \<rparr>"

text \<open>A block of levels with the DC level only.\<close>

definition ex_dc_coeff :: "int list" where
  "ex_dc_coeff = [100, 0, 0, 0, 0, 0, 0, 0, 0, 0, 0, 0, 0, 0, 0, 0]"

text \<open>
  A block of DCT coefficients that RDOQ quantises to the levels \<open>2\<close> at scan position 0 and
  \<open>1\<close> at scan position 5.
\<close>

definition ex_rdoq_resi :: "int list" where
  "ex_rdoq_resi = [64, 0, 47, 0, 0, 0, 0, 0, 0, 0, 0, 0, 0, 0, 0, 0]"


text \<open>
  The locals of \<^verbatim>\<open>rdoQuant\<close> on the block \<open>ex_rdoq_resi\<close> with sign-data hiding enabled, and its
  state when the main loop has ended.
\<close>

definition ex_E :: "int rdoq_env" where
  "ex_E = rdoq_make_env ex_K ex_D (ex_Q True ex_rdoq_resi) (ex_cu False True) 2 TEXT_LUMA False
            (fst (snd (nquant ex_rdoq_resi (replicate 16 16384) 19 (2 ^ 18) 16)))"

definition ex_st :: "int rdoq_state" where
  "ex_st = for_down (rdoq_cg ex_E) 1
             (rdoq_init_state ex_D 16 (snd (snd (nquant ex_rdoq_resi (replicate 16 16384) 19 (2 ^ 18) 16))))"

chapter \<open>Properties\<close>

section \<open>Chroma QP derivation\<close>

lemma Clip3_range: "lo \<le> hi \<Longrightarrow> lo \<le> Clip3 lo hi a \<and> Clip3 lo hi a \<le> hi"
  by (simp add: Clip3_def)

lemma Clip3_id: "lo \<le> a \<Longrightarrow> a \<le> hi \<Longrightarrow> Clip3 lo hi a = a"
  by (simp add: Clip3_def)

text \<open>
  Claim C8. For a chroma component, \<^verbatim>\<open>setQPforQuant\<close> clips \<open>qpy + chromaQPOffset\<close> into
  \<open>[-QP_BD_OFFSET, 57]\<close>; a clipped QP of at least 30 goes through the 4:2:0 mapping table
  when the chroma format is 4:2:0 and is clipped to at most 51 for the other formats; a
  clipped QP below 30 passes through unchanged. The result (plus \<^verbatim>\<open>QP_BD_OFFSET\<close>) is what
  is stored for the component, the other components keep their parameters.
\<close>

theorem setQPforQuant_chroma:
  assumes "0 \<le> bd"
  shows "let c = Clip3 (- bd) 57 (qpy + off);
             m' = setQPforQuant bd tab m qpy ttype off fmt;
             q = qp (m' ttype) - bd
         in - bd \<le> c \<and> c \<le> 57
          \<and> (- bd \<le> qpy + off \<and> qpy + off \<le> 57 \<longrightarrow> c = qpy + off)
          \<and> (c < 30 \<longrightarrow> q = c)
          \<and> (30 \<le> c \<and> fmt = X265_CSP_I420 \<longrightarrow> q = tab ! nat c)
          \<and> (30 \<le> c \<and> fmt \<noteq> X265_CSP_I420 \<longrightarrow> q = min c 51 \<and> q \<le> 51)
          \<and> per (m' ttype) = (q + bd) div 6 \<and> rem (m' ttype) = (q + bd) mod 6
          \<and> (\<forall>t. t \<noteq> ttype \<longrightarrow> m' t = m t)"
proof -
  have "- bd \<le> (57::int)" using assms by simp
  then show ?thesis
    by (simp add: Let_def setQPforQuant_def setQpParam_def Clip3_range Clip3_id)
qed

theorem setQPforQuant_chroma_witness:
  "qp (setQPforQuant 0 hevc_chromaScale (\<lambda>_. setQpParam 0) 35 TEXT_CHROMA_U 1 X265_CSP_I420
         TEXT_CHROMA_U) = 34
   \<and> qp (setQPforQuant 0 hevc_chromaScale (\<lambda>_. setQpParam 0) 56 TEXT_CHROMA_V 0 X265_CSP_I444
         TEXT_CHROMA_V) = 51
   \<and> qp (setQPforQuant 0 hevc_chromaScale (\<lambda>_. setQpParam 0) 20 TEXT_CHROMA_V 2 X265_CSP_I420
         TEXT_CHROMA_V) = 22"
  using setQPforQuant_chroma [of 0 35 1 hevc_chromaScale "\<lambda>_. setQpParam 0" TEXT_CHROMA_U X265_CSP_I420]
        setQPforQuant_chroma [of 0 56 0 hevc_chromaScale "\<lambda>_. setQpParam 0" TEXT_CHROMA_V X265_CSP_I444]
        setQPforQuant_chroma [of 0 20 2 hevc_chromaScale "\<lambda>_. setQpParam 0" TEXT_CHROMA_V X265_CSP_I420]
  by (simp add: Let_def Clip3_def hevc_chromaScale_def)

section \<open>DC intra prediction\<close>


lemma fold_add_sum_list:
  "fold (\<lambda>i s. s + f i) xs (a::int) = a + sum_list (map f xs)"
  by (induction xs arbitrary: a) (simp_all add: algebra_simps)

lemma int_sum_list: "int (sum_list xs) = sum_list (map int xs)"
  by (induction xs) simp_all

lemma take_drop_map_nth:
  "a + n \<le> length xs \<Longrightarrow> take n (drop a xs) = map (\<lambda>i. xs ! (a + i)) [0..<n]"
  by (rule nth_equalityI) simp_all

lemma dc_dcVal_rounded_average:
  assumes "0 < N" "2 * N + 1 + N \<le> length srcPix"
  shows "dc_dcVal N srcPix = rounded_average (dc_samples_N N srcPix)"
proof -
  have t: "take N (drop 1 srcPix) = map (\<lambda>i. srcPix ! (1 + i)) [0..<N]"
    using assms by (intro take_drop_map_nth) simp
  have l: "take N (drop (2 * N + 1) srcPix) = map (\<lambda>i. srcPix ! (2 * N + 1 + i)) [0..<N]"
    using assms by (intro take_drop_map_nth) simp
  have len: "length (dc_samples_N N srcPix) = N + N"
    using assms by (simp add: dc_samples_N_def)
  have s: "int (sum_list (dc_samples_N N srcPix))
      = sum_list (map (\<lambda>i. int (srcPix ! (1 + i)) + int (srcPix ! (2 * N + 1 + i))) [0..<N])"
    unfolding dc_samples_N_def t l
    by (simp add: int_sum_list sum_list_addf comp_def del: upt_Suc)
  show ?thesis
    unfolding dc_dcVal_def rounded_average_def len Let_def fold_add_sum_list s
    by (simp add: algebra_simps)
qed

lemma fold_fill_row_length [simp]:
  "length (fold (\<lambda>l d. d[b + l := v]) [0..<n] d) = length d"
  by (induction n) auto

lemma fold_fill_row_nth:
  "p < length d \<Longrightarrow> fold (\<lambda>l d. d[b + l := v]) [0..<n] d ! p =
     (if b \<le> p \<and> p < b + n then v else d ! p)"
  by (induction n) (auto simp: nth_list_update less_Suc_eq)

lemma fold_fill_block_length [simp]:
  "length (fold (\<lambda>k d. fold (\<lambda>l d'. d'[k * s + l := v]) [0..<w] d) [0..<n] d0) = length d0"
  by (induction n) auto

lemma fold_fill_block_nth:
  "p < length d0 \<Longrightarrow>
   fold (\<lambda>k d. fold (\<lambda>l d'. d'[k * s + l := v]) [0..<w] d) [0..<n] d0 ! p =
     (if (\<exists>k<n. k * s \<le> p \<and> p < k * s + w) then v else d0 ! p)"
proof (induction n)
  case 0
  then show ?case by simp
next
  case (Suc n)
  then show ?case
    by (auto simp: fold_fill_row_nth less_Suc_eq)
qed

lemma intra_pred_dc_fill:
  assumes "k < w" "l < w" "k * s + l < length dst"
  shows "intra_pred_dc_c_new pb w dst s src False ! (k * s + l) = to_pixel pb (dc_dcVal w src)"
proof -
  have "\<exists>k'<w. k' * s \<le> k * s + l \<and> k * s + l < k' * s + w"
    using assms by (intro exI[of _ k]) simp
  then show ?thesis
    using assms by (simp add: intra_pred_dc_c_new_def Let_def fold_fill_block_nth)
qed

lemma sum_list_le_bound:
  "\<forall>x\<in>set xs. x \<le> (b::nat) \<Longrightarrow> sum_list xs \<le> length xs * b"
  by (induction xs) auto

lemma rounded_average_le:
  assumes "xs \<noteq> []" "\<forall>x\<in>set xs. x \<le> b"
  shows "0 \<le> rounded_average xs \<and> rounded_average xs \<le> int b"
proof -
  let ?n = "length xs"
  have n: "0 < ?n" using assms by simp
  have "sum_list xs + ?n div 2 < ?n * b + ?n"
    using sum_list_le_bound[OF assms(2)] n by (simp add: add_le_less_mono)
  then have "(sum_list xs + ?n div 2) div ?n < b + 1"
    using n by (simp add: less_mult_imp_div_less algebra_simps)
  then have "(sum_list xs + ?n div 2) div ?n \<le> b" by simp
  then have "int ((sum_list xs + ?n div 2) div ?n) \<le> int b" by simp
  moreover have "0 \<le> (int (sum_list xs) + int (length xs div 2)) div int (length xs)"
    by (intro pos_imp_zdiv_nonneg_iff[THEN iffD2]) (use n in simp_all)
  ultimately show ?thesis
    unfolding rounded_average_def by (simp add: zdiv_int)
qed

lemma to_pixel_id: "0 \<le> v \<Longrightarrow> v < 2 ^ pb \<Longrightarrow> to_pixel pb v = nat v"
  by (simp add: to_pixel_def)

text \<open>
  Claim C7, as amended. Mode 1 (DC) without edge filtering fills every sample of the
  \<open>N\<close> by \<open>N\<close> block with the rounded average of the first \<open>N\<close> top and the first
  \<open>N\<close> left reference samples (\<open>2N\<close> samples in all), not of all \<open>2N\<close> top and \<open>2N\<close>
  left ones.
\<close>

theorem intra_pred_dc_value:
  assumes "0 < N" and "length srcPix = 4 * N + 1"
      and "\<forall>x\<in>set srcPix. x < 2 ^ pixbits"
      and "k < N" and "l < N" and "k * dstStride + l < length dst"
  shows "int (intra_pred_dc_c_new pixbits N dst dstStride srcPix False ! (k * dstStride + l))
           = rounded_average (dc_samples_N N srcPix)"
proof -
  let ?xs = "dc_samples_N N srcPix"
  have ne: "?xs \<noteq> []" using assms(1,2) by (simp add: dc_samples_N_def)
  have "set ?xs \<subseteq> set srcPix"
    unfolding dc_samples_N_def by (auto dest!: in_set_takeD in_set_dropD)
  then have b: "\<forall>x\<in>set ?xs. x \<le> 2 ^ pixbits - 1" using assms(3) by fastforce
  have r: "0 \<le> rounded_average ?xs \<and> rounded_average ?xs \<le> int (2 ^ pixbits - 1)"
    by (rule rounded_average_le[OF ne b])
  then have lt: "rounded_average ?xs < 2 ^ pixbits"
    by (simp add: of_nat_diff)
  have dc: "dc_dcVal N srcPix = rounded_average ?xs"
    using assms(1,2) by (intro dc_dcVal_rounded_average) simp_all
  show ?thesis
    using r lt by (simp add: intra_pred_dc_fill[OF assms(4,5,6)] dc to_pixel_id)
qed


text \<open>
  Claim C7 as stated fails: with top samples \<open>0,0,0,0,100,100,100,100\<close> and left samples
  all \<open>0\<close> the code fills the 4 by 4 block with \<open>0\<close>, while the rounded average of the
  \<open>2N\<close> top and \<open>2N\<close> left samples is \<open>25\<close>.
\<close>

theorem intra_pred_dc_counterexample:
  "int (intra_pred_dc_c_new 8 4 (replicate 16 0) 4 dc_cex_srcPix False ! 0) = 0
   \<and> rounded_average (spec_dc_samples_2N 4 dc_cex_srcPix) = 25
   \<and> int (intra_pred_dc_c_new 8 4 (replicate 16 0) 4 dc_cex_srcPix False ! 0)
       \<noteq> rounded_average (spec_dc_samples_2N 4 dc_cex_srcPix)"
  by code_simp

theorem intra_pred_dc_value_witness:
  "int (intra_pred_dc_c_new 8 4 (replicate 16 0) 4 dc_cex_srcPix False ! (1 * 4 + 2)) = 0"
  using intra_pred_dc_value [of 4 dc_cex_srcPix 8 1 2 4 "replicate 16 0"]
  by (simp add: dc_cex_srcPix_def rounded_average_def dc_samples_N_def)

section \<open>Sign-data hiding after scalar quantization\<close>


lemma push_bit_cg [simp]: "push_bit LOG2_SCAN_SET_SIZE (cg::nat) = 16 * cg"
  by (simp add: LOG2_SCAN_SET_SIZE_def push_bit_eq_mult)

lemma lastNZ_from_takeWhile:
  "lastNZ_from coeff scn st k =
     int k - 1 - int (length (takeWhile (\<lambda>x. x = 0) (rev (map (\<lambda>n. coeff ! (scn ! (n + st))) [0..<k]))))"
  by (induction k) simp_all

lemma lastNZ_from_char:
  "lastNZ_from coeff scn st k = L \<Longrightarrow>
     (if L < 0 then L = - 1 \<and> (\<forall>n<k. coeff ! (scn ! (n + st)) = 0)
      else nat L < k \<and> coeff ! (scn ! (nat L + st)) \<noteq> 0
           \<and> (\<forall>n. nat L < n \<and> n < k \<longrightarrow> coeff ! (scn ! (n + st)) = 0))"
proof (induction k arbitrary: L)
  case 0
  then show ?case by simp
next
  case (Suc k)
  show ?case
  proof (cases "coeff ! (scn ! (k + st)) = 0")
    case True
    with Suc.prems have "lastNZ_from coeff scn st k = L" by simp
    from Suc.IH[OF this] True show ?thesis
      by (auto simp: less_Suc_eq)
  next
    case False
    with Suc.prems have "L = int k" by simp
    with False show ?thesis by auto
  qed
qed

lemma firstNZ_loop_char:
  "n \<le> L \<Longrightarrow> coeff ! (scn ! (L + st)) \<noteq> 0 \<Longrightarrow>
     n \<le> firstNZ_loop coeff scn st L n \<and> firstNZ_loop coeff scn st L n \<le> L
     \<and> coeff ! (scn ! (firstNZ_loop coeff scn st L n + st)) \<noteq> 0
     \<and> (\<forall>m. n \<le> m \<and> m < firstNZ_loop coeff scn st L n \<longrightarrow> coeff ! (scn ! (m + st)) = 0)"
proof (induction coeff scn st L n rule: firstNZ_loop.induct)
  case (1 coeff scn st L n)
  show ?case
  proof (cases "n < L \<and> coeff ! (scn ! (n + st)) = 0")
    case True
    then have eq: "firstNZ_loop coeff scn st L n = firstNZ_loop coeff scn st L (Suc n)"
      by (subst firstNZ_loop.simps) simp
    from True have "Suc n \<le> L" by simp
    from "1.IH"[OF True this "1.prems"(2)] True show ?thesis
      unfolding eq by (auto simp: le_Suc_eq Suc_le_eq elim: le_neq_trans)
  next
    case False
    then have eq: "firstNZ_loop coeff scn st L n = n"
      by (subst firstNZ_loop.simps) auto
    from False "1.prems" show ?thesis
      unfolding eq by (cases "n = L") auto
  qed
qed

lemma takeWhile_length_char:
  assumes "F < length ls" "ls ! F \<noteq> (0::int)" "\<forall>m<F. ls ! m = 0"
  shows "length (takeWhile (\<lambda>x. x = 0) ls) = F"
proof -
  have a: "F \<le> length (takeWhile (\<lambda>x. x = 0) ls)"
    using assms by (intro length_takeWhile_less_P_nth) auto
  have "\<not> F < length (takeWhile (\<lambda>x. x = 0) ls)"
  proof
    assume lt: "F < length (takeWhile (\<lambda>x. x = 0) ls)"
    then have "takeWhile (\<lambda>x. x = 0) ls ! F = ls ! F" by (rule takeWhile_nth)
    moreover have "takeWhile (\<lambda>x. x = 0) ls ! F \<in> set (takeWhile (\<lambda>x. x = 0) ls)"
      using lt by simp
    ultimately show False using assms(2) by (auto dest: set_takeWhileD)
  qed
  with a show ?thesis by simp
qed


lemma u32_mod2 [simp]: "u32 x mod 2 = x mod 2"
proof -
  have "(2::int) dvd 2 ^ 32" by simp
  then show ?thesis unfolding u32_def by (rule mod_mod_cancel)
qed

lemma fold_u32_add_mod2:
  "fold (\<lambda>n s. u32 (s + g n)) xs a mod 2 = (a + sum_list (map g xs)) mod 2"
proof (induction xs arbitrary: a)
  case Nil
  then show ?case by simp
next
  case (Cons x xs)
  have "(u32 (a + g x) + sum_list (map g xs)) mod 2 = ((a + g x) + sum_list (map g xs)) mod 2"
    by (rule mod_add_cong) simp_all
  then show ?case by (simp add: Cons add.assoc)
qed

lemma abs_mod2: "\<bar>x\<bar> mod 2 = x mod (2::int)"
  by (cases "x < 0") (simp_all add: abs_if, presburger)

lemma sum_list_abs_mod2: "sum_list (map abs xs) mod 2 = sum_list xs mod (2::int)"
proof (induction xs)
  case Nil
  then show ?case by simp
next
  case (Cons x xs)
  have "(\<bar>x\<bar> + sum_list (map abs xs)) mod 2 = (x + sum_list xs) mod 2"
    by (rule mod_add_cong) (simp_all add: abs_mod2 Cons)
  then show ?case by simp
qed

lemma sum_list_map_zero: "\<forall>x\<in>set xs. f x = (0::int) \<Longrightarrow> sum_list (map f xs) = 0"
  by (induction xs) simp_all

lemma sbh_absSum_parity:
  assumes "F \<le> L" "L < k"
      and "\<forall>m<F. coeff ! (scn ! (m + st)) = 0"
      and "\<forall>m. L < m \<and> m < k \<longrightarrow> coeff ! (scn ! (m + st)) = 0"
  shows "sbh_absSum coeff scn st F L AND 1
           = sum_list (map abs (map (\<lambda>n. coeff ! (scn ! (n + st))) [0..<k])) mod 2"
proof -
  let ?g = "\<lambda>n. coeff ! (scn ! (n + st))"
  have "sum ?g {F..<Suc L} = sum ?g {0..<k}"
    by (rule sum.mono_neutral_left) (use assms in \<open>auto simp: not_le\<close>)
  then have "sum_list (map ?g [0..<k]) = sum_list (map ?g [F..<Suc L])"
    by (simp add: interv_sum_list_conv_sum_set_nat del: upt_Suc)
  then have e: "sum_list (map ?g [F..<Suc L]) mod 2 = sum_list (map abs (map ?g [0..<k])) mod 2"
    by (simp only: sum_list_abs_mod2)
  show ?thesis
    unfolding sbh_absSum_def and_one_eq fold_u32_add_mod2 using e by simp
qed


lemma cg_levels_nth [simp]: "n < 16 \<Longrightarrow> cg_levels coeff scn cg ! n = coeff ! (scn ! (n + 16 * cg))"
  by (simp add: cg_levels_def)

lemma cg_levels_length [simp]: "length (cg_levels coeff scn cg) = 16"
  by (simp add: cg_levels_def)

lemma hdq_cg_empty:
  "lastNZ_from coeff scn (16 * cg) 16 < 0 \<longleftrightarrow> \<not> (\<exists>x\<in>set (cg_levels coeff scn cg). x \<noteq> 0)"
proof
  assume "lastNZ_from coeff scn (16 * cg) 16 < 0"
  with lastNZ_from_char[OF refl, of coeff scn "16 * cg" 16]
  have "\<forall>n<16. coeff ! (scn ! (n + 16 * cg)) = 0" by simp
  then show "\<not> (\<exists>x\<in>set (cg_levels coeff scn cg). x \<noteq> 0)"
    by (auto simp: cg_levels_def)
next
  assume a: "\<not> (\<exists>x\<in>set (cg_levels coeff scn cg). x \<noteq> 0)"
  show "lastNZ_from coeff scn (16 * cg) 16 < 0"
  proof (rule ccontr)
    assume "\<not> lastNZ_from coeff scn (16 * cg) 16 < 0"
    with lastNZ_from_char[OF refl, of coeff scn "16 * cg" 16]
    obtain n where "n < 16" "coeff ! (scn ! (n + 16 * cg)) \<noteq> 0" by auto
    then have "cg_levels coeff scn cg ! n \<noteq> 0" "n < length (cg_levels coeff scn cg)" by simp_all
    with a show False by (metis nth_mem)
  qed
qed

lemma hdq_cg_positions:
  assumes "0 \<le> lastNZ_from coeff scn (16 * cg) 16"
  defines "ls \<equiv> cg_levels coeff scn cg"
  shows "nat (lastNZ_from coeff scn (16 * cg) 16) = last_nonzero ls"
    and "firstNZ_loop coeff scn (16 * cg) (last_nonzero ls) 0 = first_nonzero ls"
    and "first_nonzero ls \<le> last_nonzero ls" and "last_nonzero ls < 16"
    and "ls ! first_nonzero ls \<noteq> 0"
    and "sbh_absSum coeff scn (16 * cg) (first_nonzero ls) (last_nonzero ls) AND 1
           = sum_list (map abs ls) mod 2"
proof -
  let ?L = "lastNZ_from coeff scn (16 * cg) 16"
  let ?g = "\<lambda>n. coeff ! (scn ! (n + 16 * cg))"
  have ls: "ls = map ?g [0..<16]" by (simp add: ls_def cg_levels_def)
  have "?L = 15 - int (length (takeWhile (\<lambda>x. x = 0) (rev ls)))"
    unfolding ls by (simp add: lastNZ_from_takeWhile)
  with assms(1) show L: "nat ?L = last_nonzero ls"
    by (simp add: last_nonzero_def ls_def)
  from lastNZ_from_char[OF refl, of coeff scn "16 * cg" 16] assms(1)
  have c: "nat ?L < 16" "?g (nat ?L) \<noteq> 0" "\<forall>n. nat ?L < n \<and> n < 16 \<longrightarrow> ?g n = 0"
    by auto
  then show l16: "last_nonzero ls < 16" using L by simp
  let ?F = "firstNZ_loop coeff scn (16 * cg) (last_nonzero ls) 0"
  from firstNZ_loop_char[of 0 "last_nonzero ls" coeff scn "16 * cg"] c(2) L
  have f: "?F \<le> last_nonzero ls" "?g ?F \<noteq> 0" "\<forall>m<?F. ?g m = 0"
    by auto
  have "length (takeWhile (\<lambda>x. x = 0) ls) = ?F"
  proof (rule takeWhile_length_char)
    show "?F < length ls" using f(1) l16 by (simp add: ls_def)
    show "ls ! ?F \<noteq> 0" using f(1,2) l16 by (simp add: ls_def)
    show "\<forall>m<?F. ls ! m = 0" using f(1,3) l16 by (simp add: ls_def)
  qed
  then show F: "?F = first_nonzero ls" by (simp add: first_nonzero_def)
  show "first_nonzero ls \<le> last_nonzero ls" using f(1) F by simp
  show "ls ! first_nonzero ls \<noteq> 0" using f(1,2) l16 F by (simp add: ls_def)
  have "sbh_absSum coeff scn (16 * cg) ?F (last_nonzero ls) AND 1
          = sum_list (map abs (map ?g [0..<16])) mod 2"
    using f(1) l16 f(3) c(3) L by (intro sbh_absSum_parity) auto
  then show "sbh_absSum coeff scn (16 * cg) (first_nonzero ls) (last_nonzero ls) AND 1
           = sum_list (map abs ls) mod 2"
    using F ls by simp
qed



lemma sbh_select_inv:
  assumes "minCostInc s \<le> MAX_INT"
      and "minPos s = - 1 \<or> G (minPos s) (finalChange s)"
      and "curCost s < MAX_INT \<longrightarrow> G (int blkPos) (curChange s)"
  shows "minCostInc (sbh_select blkPos s) \<le> MAX_INT
       \<and> (minPos (sbh_select blkPos s) = - 1
            \<or> G (minPos (sbh_select blkPos s)) (finalChange (sbh_select blkPos s)))"
  using assms by (auto simp: sbh_select_def)

lemma hdq_search_step_inv:
  assumes "n < 16" "search_inv coeff scn st s"
  shows "search_inv coeff scn st (hdq_search_step coeff dU resi scn st F sb n s)"
  unfolding search_inv_def hdq_search_step_def Let_def
  by (rule sbh_select_inv) (use assms in \<open>auto simp: cand_ok_def search_inv_def\<close>)

lemma hdq_search_fold_inv:
  assumes "\<forall>n\<in>set ns. n < 16" "search_inv coeff scn st s"
  shows "search_inv coeff scn st (fold (hdq_search_step coeff dU resi scn st F sb) ns s)"
  using assms
  by (induction ns arbitrary: s) (simp_all add: hdq_search_step_inv)

lemma sbh_apply_None: "p < 0 \<Longrightarrow> sbh_apply coeff resi numSig p f = None"
  by (simp add: sbh_apply_def)

lemma hdq_cg_cases:
  assumes "hdq_cg dU resi scn cg (numSig, coeff, lastCG) = Some (numSig', coeff', lastCG')"
  shows "(\<not> sbh_condition (cg_levels coeff scn cg) \<and> coeff' = coeff \<and> numSig' = numSig)
       \<or> (sbh_condition (cg_levels coeff scn cg)
           \<and> (\<exists>p f. cand_ok coeff scn (16 * cg) p f
                 \<and> sbh_apply coeff resi numSig p f = Some (numSig', coeff')))"
proof (cases "lastNZ_from coeff scn (16 * cg) 16 < 0")
  case True
  then have "\<not> sbh_condition (cg_levels coeff scn cg)"
    by (simp add: hdq_cg_empty sbh_condition_def)
  with True assms show ?thesis
    by (simp add: hdq_cg_def SCAN_SET_SIZE_def)
next
  case False
  let ?ls = "cg_levels coeff scn cg"
  have ne: "\<exists>x\<in>set ?ls. x \<noteq> 0" using False by (simp add: hdq_cg_empty)
  have nn: "0 \<le> lastNZ_from coeff scn (16 * cg) 16" using False by simp
  note P = hdq_cg_positions[OF nn]
  have sb: "(if coeff ! (scn ! (16 * cg + first_nonzero ?ls)) > 0 then 0 else 1 :: int)
              = (if ?ls ! first_nonzero ?ls < 0 then 1 else 0)"
    using P(3,4,5) by (simp add: add.commute)
  have cond: "sbh_condition ?ls \<longleftrightarrow>
      (int (last_nonzero ?ls) - int (first_nonzero ?ls) \<ge> SBH_THRESHOLD
       \<and> (if coeff ! (scn ! (16 * cg + first_nonzero ?ls)) > 0 then 0 else 1 :: int)
           \<noteq> sbh_absSum coeff scn (16 * cg) (first_nonzero ?ls) (last_nonzero ?ls) AND 1)"
    unfolding sbh_condition_def sb P(6) using ne by (simp add: SBH_THRESHOLD_def)
  show ?thesis
  proof (cases "sbh_condition ?ls")
    case no: False
    with assms False show ?thesis
      unfolding hdq_cg_def
      by (auto simp: SCAN_SET_SIZE_def P Let_def cond split: if_splits)
  next
    case yes: True
    let ?sb = "(if coeff ! (scn ! (16 * cg + first_nonzero ?ls)) > 0 then 0 else 1 :: int)"
    let ?ns = "rev [0..<Suc (if lastCG then last_nonzero ?ls else SCAN_SET_SIZE - 1)]"
    let ?init = "\<lparr> minCostInc = MAX_INT, minPos = - 1, finalChange = 0, curCost = MAX_INT, curChange = 0 \<rparr>"
    let ?s = "fold (hdq_search_step coeff dU resi scn (16 * cg) (first_nonzero ?ls) ?sb) ?ns ?init"
    have ap: "(case sbh_apply coeff resi numSig (minPos ?s) (finalChange ?s) of
                 None \<Rightarrow> None | Some (numSig', coeff') \<Rightarrow> Some (numSig', coeff', False))
              = Some (numSig', coeff', lastCG')"
      using assms False yes[unfolded cond]
      unfolding hdq_cg_def by (simp add: SCAN_SET_SIZE_def P Let_def)
    then have ap': "sbh_apply coeff resi numSig (minPos ?s) (finalChange ?s) = Some (numSig', coeff')"
      by (auto split: option.splits)
    have "\<forall>n\<in>set ?ns. n < 16" using P(4) by (auto simp: SCAN_SET_SIZE_def)
    then have "search_inv coeff scn (16 * cg) ?s"
      by (intro hdq_search_fold_inv) (simp_all add: search_inv_def)
    then have "minPos ?s = - 1 \<or> cand_ok coeff scn (16 * cg) (minPos ?s) (finalChange ?s)"
      by (simp add: search_inv_def)
    moreover have "minPos ?s \<noteq> - 1" using ap' sbh_apply_None[of "minPos ?s"] by force
    ultimately have "cand_ok coeff scn (16 * cg) (minPos ?s) (finalChange ?s)" by simp
    with ap' yes show ?thesis by blast
  qed
qed



lemma sbh_apply_Some:
  assumes "sbh_apply coeff resi numSig p f = Some (numSig', coeff')"
  shows "0 \<le> p" and "nat p < length coeff"
    and "coeff' = coeff[nat p :=
           (if resi ! nat p \<ge> 0
            then coeff ! nat p + (if coeff ! nat p = 32767 \<or> coeff ! nat p = - 32768 then - 1 else f)
            else coeff ! nat p - (if coeff ! nat p = 32767 \<or> coeff ! nat p = - 32768 then - 1 else f))]"
    and "numSig' = (if coeff ! nat p = 0 then u32 (numSig + 1)
                    else if (if coeff ! nat p = 32767 \<or> coeff ! nat p = - 32768 then - 1 else f) = - 1
                            \<and> \<bar>coeff ! nat p\<bar> = 1 then u32 (numSig - 1) else numSig)"
  using assms unfolding sbh_apply_def Let_def
  by (auto split: if_splits)

lemma abs_step: "\<bar>\<bar>(c::int) + 1\<bar> - \<bar>c\<bar>\<bar> = 1" "\<bar>\<bar>(c::int) - 1\<bar> - \<bar>c\<bar>\<bar> = 1"
  by arith+

lemma sbh_apply_effect:
  assumes ap: "sbh_apply coeff resi numSig p f = Some (numSig', coeff')" and f: "f = 1 \<or> f = - 1"
  shows "0 \<le> p \<and> nat p < length coeff
       \<and> (\<exists>v. coeff' = coeff[nat p := v] \<and> \<bar>\<bar>v\<bar> - \<bar>coeff ! nat p\<bar>\<bar> = 1)"
proof -
  let ?c = "coeff ! nat p"
  let ?f1 = "if ?c = 32767 \<or> ?c = - 32768 then - 1 else f"
  let ?v = "if resi ! nat p \<ge> 0 then ?c + ?f1 else ?c - ?f1"
  have "\<bar>\<bar>?v\<bar> - \<bar>?c\<bar>\<bar> = 1" using f by (auto simp: abs_step split: if_splits)
  with sbh_apply_Some[OF ap] show ?thesis by blast
qed

lemma count_nonzero_update:
  "p < length xs \<Longrightarrow>
   count_nonzero (xs[p := v]) = count_nonzero xs + (if v \<noteq> 0 then 1 else 0) - (if xs ! p \<noteq> 0 then 1 else 0)"
proof -
  assume p: "p < length xs"
  have a: "xs[p := v] = take p xs @ v # drop (Suc p) xs" using p by (rule upd_conv_take_nth_drop)
  have b: "xs = take p xs @ xs ! p # drop (Suc p) xs" using p by (rule id_take_nth_drop)
  have "count_nonzero xs = count_nonzero (take p xs) + (if xs ! p \<noteq> 0 then 1 else 0) + count_nonzero (drop (Suc p) xs)"
    by (subst b) (simp add: count_nonzero_def)
  moreover have "count_nonzero (xs[p := v]) = count_nonzero (take p xs) + (if v \<noteq> 0 then 1 else 0) + count_nonzero (drop (Suc p) xs)"
    by (subst a) (simp add: count_nonzero_def)
  ultimately show ?thesis by simp
qed

lemma count_nonzero_bounds: "0 \<le> count_nonzero xs \<and> count_nonzero xs \<le> int (length xs)"
  by (simp add: count_nonzero_def)

lemma u32_id: "0 \<le> x \<Longrightarrow> x < 2 ^ 32 \<Longrightarrow> u32 x = x"
  by (simp add: u32_def)

lemma sbh_apply_sign_count:
  assumes ap: "sbh_apply coeff resi numSig p f = Some (numSig', coeff')"
      and f: "f = 1 \<or> f = - 1" and z: "coeff ! nat p = 0 \<longrightarrow> f = 1"
      and sm: "signs_match resi coeff"
  shows "signs_match resi coeff'"
    and "length coeff < 2 ^ 32 \<Longrightarrow> numSig = count_nonzero coeff \<Longrightarrow> numSig' = count_nonzero coeff'"
proof -
  note p = sbh_apply_Some(1,2)[OF ap]
  let ?c = "coeff ! nat p"
  let ?f1 = "if ?c = 32767 \<or> ?c = - 32768 then - 1 else f"
  let ?v = "if resi ! nat p \<ge> 0 then ?c + ?f1 else ?c - ?f1"
  have c': "coeff' = coeff[nat p := ?v]"
    by (rule sbh_apply_Some(3)[OF ap])
  have n': "numSig' = (if ?c = 0 then u32 (numSig + 1)
                       else if ?f1 = - 1 \<and> \<bar>?c\<bar> = 1 then u32 (numSig - 1) else numSig)"
    by (rule sbh_apply_Some(4)[OF ap])
  have smp: "sign_matches (resi ! nat p) ?c" using sm p by (simp add: signs_match_def)
  have smv: "sign_matches (resi ! nat p) ?v"
    using smp f z unfolding sign_matches_def by (auto split: if_splits)
  show "signs_match resi coeff'"
    unfolding signs_match_def c' using sm smv p
    by (auto simp: signs_match_def nth_list_update)
  assume len: "length coeff < 2 ^ 32" and cnt: "numSig = count_nonzero coeff"
  have cu: "count_nonzero coeff' = count_nonzero coeff + (if ?v \<noteq> 0 then 1 else 0) - (if ?c \<noteq> 0 then 1 else 0)"
    unfolding c' using p(2) by (rule count_nonzero_update)
  have b: "0 \<le> count_nonzero coeff'" "count_nonzero coeff' < 2 ^ 32"
    using count_nonzero_bounds[of coeff'] len c' by auto
  have vz: "?v = 0 \<longleftrightarrow> (?c \<noteq> 0 \<and> ?f1 = - 1 \<and> \<bar>?c\<bar> = 1)"
    using smp f z unfolding sign_matches_def by (auto split: if_splits)
  show "numSig' = count_nonzero coeff'"
  proof (cases "?c = 0")
    case True
    then have "count_nonzero coeff' = numSig + 1" using cu vz cnt by (simp split: if_splits)
    with b n' True show ?thesis by (simp add: u32_id)
  next
    case False
    show ?thesis
    proof (cases "?f1 = - 1 \<and> \<bar>?c\<bar> = 1")
      case True
      then have "?v = 0" using vz False by blast
      then have "count_nonzero coeff' = numSig - 1" using cu cnt False by simp
      with b n' True False show ?thesis by (simp add: u32_id)
    next
      case nd: False
      then have "?v \<noteq> 0" using vz by blast
      then have "count_nonzero coeff' = numSig" using cu cnt False by simp
      with n' nd False show ?thesis by simp
    qed
  qed
qed

lemma fold_option_None:
  "fold (\<lambda>x r. case r of None \<Rightarrow> None | Some st \<Rightarrow> f x st) xs None = None"
  by (induction xs) simp_all

lemma fold_option_inv:
  assumes "fold (\<lambda>x r. case r of None \<Rightarrow> None | Some st \<Rightarrow> f x st) xs (Some st0) = Some st'"
      and "P st0"
      and "\<And>x st st'. x \<in> set xs \<Longrightarrow> P st \<Longrightarrow> f x st = Some st' \<Longrightarrow> P st'"
  shows "P st'"
  using assms
proof (induction xs arbitrary: st0)
  case Nil
  then show ?case by simp
next
  case (Cons x xs)
  show ?case
  proof (cases "f x st0")
    case None
    with Cons.prems(1) show ?thesis by (simp add: fold_option_None)
  next
    case (Some st1)
    have p1: "P st1" using Cons.prems(3)[of x st0 st1] Cons.prems(2) Some by simp
    have f1: "fold (\<lambda>x r. case r of None \<Rightarrow> None | Some st \<Rightarrow> f x st) xs (Some st1) = Some st'"
      using Cons.prems(1) Some by simp
    show ?thesis
      by (rule Cons.IH[OF f1 p1]) (use Cons.prems(3) in auto)
  qed
qed



lemma cg_levels_cong:
  "(\<And>n. n < 16 \<Longrightarrow> ca ! (scn ! (n + 16 * cg)) = cb ! (scn ! (n + 16 * cg)))
     \<Longrightarrow> cg_levels ca scn cg = cg_levels cb scn cg"
  by (simp add: cg_levels_def)

lemma hdq_cg_step_effect:
  assumes inj: "\<forall>i<16 * K. \<forall>j<16 * K. scn ! i = scn ! j \<longrightarrow> i = j" and k: "k < K"
      and st: "hdq_cg dU resi scn k (numSig, c, lc) = Some (numSig1, ca, lc1)"
  shows "length ca = length c"
    and "\<forall>i. i \<notin> (\<lambda>j. scn ! j) ` {16 * k..<16 * k + 16} \<longrightarrow> ca ! i = c ! i"
    and "sbh_group_effect (cg_levels c scn k) (cg_levels ca scn k)"
proof -
  from hdq_cg_cases[OF st]
  consider (same) "\<not> sbh_condition (cg_levels c scn k)" "ca = c"
    | (chg) p f where "sbh_condition (cg_levels c scn k)" "cand_ok c scn (16 * k) p f"
                      "sbh_apply c resi numSig p f = Some (numSig1, ca)"
    by blast
  then have "length ca = length c
    \<and> (\<forall>i. i \<notin> (\<lambda>j. scn ! j) ` {16 * k..<16 * k + 16} \<longrightarrow> ca ! i = c ! i)
    \<and> sbh_group_effect (cg_levels c scn k) (cg_levels ca scn k)"
  proof cases
    case same
    then show ?thesis by (simp add: sbh_group_effect_def)
  next
    case chg
    from chg(2) obtain n where n: "n < 16" "p = int (scn ! (n + 16 * k))" "f = 1 \<or> f = - 1"
      by (auto simp: cand_ok_def)
    from sbh_apply_effect[OF chg(3) n(3)] n(2)
    obtain v where v: "scn ! (n + 16 * k) < length c" "ca = c[scn ! (n + 16 * k) := v]"
        "\<bar>\<bar>v\<bar> - \<bar>c ! (scn ! (n + 16 * k))\<bar>\<bar> = 1"
      by auto
    have other: "scn ! (n + 16 * k) \<noteq> scn ! (m + 16 * k)" if "m < 16" "m \<noteq> n" for m
    proof
      assume e: "scn ! (n + 16 * k) = scn ! (m + 16 * k)"
      have "m + 16 * k < 16 * K" "n + 16 * k < 16 * K" using that n(1) k by simp_all
      with inj e have "m + 16 * k = n + 16 * k" by metis
      with that show False by simp
    qed
    have 1: "length ca = length c" using v(2) by simp
    have 2: "\<forall>i. i \<notin> (\<lambda>j. scn ! j) ` {16 * k..<16 * k + 16} \<longrightarrow> ca ! i = c ! i"
    proof (intro allI impI)
      fix i assume "i \<notin> (\<lambda>j. scn ! j) ` {16 * k..<16 * k + 16}"
      moreover have "scn ! (n + 16 * k) \<in> (\<lambda>j. scn ! j) ` {16 * k..<16 * k + 16}"
        using n(1) by (intro imageI) simp
      ultimately have "i \<noteq> scn ! (n + 16 * k)" by blast
      then show "ca ! i = c ! i" using v(2) by simp
    qed
    have "\<bar>\<bar>cg_levels ca scn k ! n\<bar> - \<bar>cg_levels c scn k ! n\<bar>\<bar> = 1"
      using n(1) v by simp
    moreover have "\<forall>m<16. m \<noteq> n \<longrightarrow> cg_levels ca scn k ! m = cg_levels c scn k ! m"
      using other v(2) by simp
    ultimately have 3: "sbh_group_effect (cg_levels c scn k) (cg_levels ca scn k)"
      using chg(1) n(1) unfolding sbh_group_effect_def by auto
    from 1 2 3 show ?thesis by blast
  qed
  then show "length ca = length c"
    and "\<forall>i. i \<notin> (\<lambda>j. scn ! j) ` {16 * k..<16 * k + 16} \<longrightarrow> ca ! i = c ! i"
    and "sbh_group_effect (cg_levels c scn k) (cg_levels ca scn k)"
    by blast+
qed

lemma hdq_loop_effect:
  assumes inj: "\<forall>i<16 * K. \<forall>j<16 * K. scn ! i = scn ! j \<longrightarrow> i = j"
  shows "k \<le> K \<Longrightarrow>
     fold (\<lambda>cg r. case r of None \<Rightarrow> None | Some st \<Rightarrow> hdq_cg dU resi scn cg st)
        (rev [0..<k]) (Some (numSig, c, lc)) = Some (numSig', c', lc') \<Longrightarrow>
     length c' = length c
     \<and> (\<forall>i. i \<notin> (\<lambda>j. scn ! j) ` {0..<16 * k} \<longrightarrow> c' ! i = c ! i)
     \<and> (\<forall>cg<k. sbh_group_effect (cg_levels c scn cg) (cg_levels c' scn cg))"
proof (induction k arbitrary: numSig c lc)
  case 0
  then show ?case by simp
next
  case (Suc k)
  let ?step = "\<lambda>cg r. case r of None \<Rightarrow> None | Some st \<Rightarrow> hdq_cg dU resi scn cg st"
  have k: "k < K" "k \<le> K" using Suc.prems(1) by simp_all
  obtain numSig1 ca lc1 where
    st: "hdq_cg dU resi scn k (numSig, c, lc) = Some (numSig1, ca, lc1)"
    and rest: "fold ?step (rev [0..<k]) (Some (numSig1, ca, lc1)) = Some (numSig', c', lc')"
  proof (cases "hdq_cg dU resi scn k (numSig, c, lc)")
    case None
    with Suc.prems(2) show ?thesis by (simp add: fold_option_None)
  next
    case (Some a)
    with Suc.prems(2) that show ?thesis by (cases a) simp
  qed
  note E = hdq_cg_step_effect[OF inj k(1) st]
  note IH = Suc.IH[OF k(2) rest]
  have sep: "scn ! (n + 16 * k) \<notin> (\<lambda>j. scn ! j) ` {0..<16 * k}" if "n < 16" for n
  proof
    assume "scn ! (n + 16 * k) \<in> (\<lambda>j. scn ! j) ` {0..<16 * k}"
    then obtain j where j: "j < 16 * k" "scn ! (n + 16 * k) = scn ! j" by auto
    have "n + 16 * k < 16 * K" "j < 16 * K" using that k(1) j(1) by simp_all
    with inj j(2) have "n + 16 * k = j" by blast
    with j(1) show False by simp
  qed
  have sep2: "scn ! (n + 16 * cg) \<notin> (\<lambda>j. scn ! j) ` {16 * k..<16 * k + 16}" if "n < 16" "cg < k" for n cg
  proof
    assume "scn ! (n + 16 * cg) \<in> (\<lambda>j. scn ! j) ` {16 * k..<16 * k + 16}"
    then obtain j where j: "16 * k \<le> j" "j < 16 * k + 16" "scn ! (n + 16 * cg) = scn ! j" by auto
    have "n + 16 * cg < 16 * K" "j < 16 * K" using that k(1) j(2) by simp_all
    with inj j(3) have "n + 16 * cg = j" by blast
    with j(1) that show False by simp
  qed
  have 1: "length c' = length c" using IH E(1) by simp
  have 2: "\<forall>i. i \<notin> (\<lambda>j. scn ! j) ` {0..<16 * Suc k} \<longrightarrow> c' ! i = c ! i"
  proof (intro allI impI)
    fix i assume i: "i \<notin> (\<lambda>j. scn ! j) ` {0..<16 * Suc k}"
    have "i \<notin> (\<lambda>j. scn ! j) ` {0..<16 * k}" using i by auto
    moreover have "i \<notin> (\<lambda>j. scn ! j) ` {16 * k..<16 * k + 16}" using i by auto
    ultimately show "c' ! i = c ! i" using IH E(2) by simp
  qed
  have 3: "sbh_group_effect (cg_levels c scn cg) (cg_levels c' scn cg)" if "cg < Suc k" for cg
  proof (cases "cg = k")
    case True
    have "cg_levels c' scn k = cg_levels ca scn k"
      by (rule cg_levels_cong) (use IH sep in simp)
    with E(3) True show ?thesis by simp
  next
    case False
    then have lt: "cg < k" using that by simp
    have "cg_levels ca scn cg = cg_levels c scn cg"
      by (rule cg_levels_cong) (use E(2) sep2 lt in simp)
    moreover have "sbh_group_effect (cg_levels ca scn cg) (cg_levels c' scn cg)"
      using IH lt by blast
    ultimately show ?thesis by simp
  qed
  from 1 2 3 show ?case by blast
qed




lemma ex_hdq_run:
  "signBitHidingHDQ ex_hdq_resi ex_hdq_coeff ex_hdq_deltaU 2 ex_cp4
     = Some (3, [2, 0, 1, 0, 0, 1, 0, 0, 0, 0, 0, 0, 0, 0, 0, 0])"
  by code_simp

lemma signBitHidingHDQ_effect_run:
  assumes run: "signBitHidingHDQ resi coeff dU numSig cp = Some (numSig', coeff')"
      and dist: "distinct (scan cp)"
      and len: "16 * 2 ^ (log2TrSizeCG cp * 2) \<le> length (scan cp)"
  shows "length coeff' = length coeff
       \<and> (\<forall>cg < 2 ^ (log2TrSizeCG cp * 2).
             sbh_group_effect (cg_levels coeff (scan cp) cg) (cg_levels coeff' (scan cp) cg))
       \<and> (\<forall>i. i \<notin> set (take (16 * 2 ^ (log2TrSizeCG cp * 2)) (scan cp))
             \<longrightarrow> coeff' ! i = coeff ! i)"
proof -
  let ?K = "2 ^ (log2TrSizeCG cp * 2) :: nat"
  let ?scn = "scan cp"
  have inj: "\<forall>i<16 * ?K. \<forall>j<16 * ?K. ?scn ! i = ?scn ! j \<longrightarrow> i = j"
    using dist len by (auto simp: nth_eq_iff_index_eq)
  have pb: "push_bit (log2TrSizeCG cp * 2) (1::nat) = ?K"
    by (simp add: push_bit_eq_mult)
  obtain lc' where f: "fold (\<lambda>cg r. case r of None \<Rightarrow> None | Some st \<Rightarrow> hdq_cg dU resi ?scn cg st)
        (rev [0..<?K]) (Some (numSig, coeff, True)) = Some (numSig', coeff', lc')"
    using run unfolding signBitHidingHDQ_def pb
    by (auto split: option.splits)
  have img: "(\<lambda>j. ?scn ! j) ` {0..<16 * ?K} = set (take (16 * ?K) ?scn)"
    using len by (rule nth_image)
  from hdq_loop_effect[OF inj le_refl f] show ?thesis
    unfolding img by simp
qed

lemma sbh_select_minPos_nonneg:
  "0 \<le> minPos s \<Longrightarrow> 0 \<le> minPos (sbh_select blkPos s)"
  by (simp add: sbh_select_def)

lemma hdq_search_step_minPos_nonneg:
  "0 \<le> minPos s \<Longrightarrow> 0 \<le> minPos (hdq_search_step coeff dU resi scn st F sb n s)"
  unfolding hdq_search_step_def Let_def
  by (rule sbh_select_minPos_nonneg) (simp split: if_splits)

lemma hdq_search_fold_minPos_nonneg:
  "0 \<le> minPos s \<Longrightarrow> 0 \<le> minPos (fold (hdq_search_step coeff dU resi scn st F sb) ns s)"
  by (induction ns arbitrary: s) (simp_all add: hdq_search_step_minPos_nonneg)

lemma hdq_search_first_selected:
  assumes "minCostInc s = MAX_INT"
      and "\<bar>dU ! (scn ! (n + st))\<bar> < MAX_INT"
      and "coeff ! (scn ! (n + st)) \<noteq> 0 \<longrightarrow> n \<noteq> F"
      and "coeff ! (scn ! (n + st)) = 0 \<longrightarrow> F \<le> n"
  shows "0 \<le> minPos (hdq_search_step coeff dU resi scn st F sb n s)"
  using assms unfolding hdq_search_step_def Let_def sbh_select_def
  by (auto simp: MAX_INT_def)

lemma hdq_cg_total:
  assumes rng: "\<forall>n<16. scn ! (n + 16 * cg) < length coeff"
      and dU: "\<forall>n<16. \<bar>dU ! (scn ! (n + 16 * cg))\<bar> < MAX_INT"
  shows "\<exists>numSig' coeff' lastCG'.
           hdq_cg dU resi scn cg (numSig, coeff, lastCG) = Some (numSig', coeff', lastCG')"
proof (cases "lastNZ_from coeff scn (16 * cg) 16 < 0")
  case True
  then show ?thesis by (simp add: hdq_cg_def SCAN_SET_SIZE_def)
next
  case False
  let ?ls = "cg_levels coeff scn cg"
  have nn: "0 \<le> lastNZ_from coeff scn (16 * cg) 16" using False by simp
  note P = hdq_cg_positions[OF nn]
  let ?L = "last_nonzero ?ls" and ?F = "first_nonzero ?ls"
  from lastNZ_from_char[OF refl, of coeff scn "16 * cg" 16] nn P(1)
  have Lnz: "coeff ! (scn ! (?L + 16 * cg)) \<noteq> 0"
    and after: "\<forall>n. ?L < n \<and> n < 16 \<longrightarrow> coeff ! (scn ! (n + 16 * cg)) = 0"
    by auto
  let ?sb = "(if coeff ! (scn ! (16 * cg + ?F)) > 0 then 0 else 1 :: int)"
  let ?N = "if lastCG then ?L else SCAN_SET_SIZE - 1"
  let ?init = "\<lparr> minCostInc = MAX_INT, minPos = - 1, finalChange = 0, curCost = MAX_INT, curChange = 0 \<rparr>"
  let ?step = "hdq_search_step coeff dU resi scn (16 * cg) ?F ?sb"
  let ?s = "fold ?step (rev [0..<Suc ?N]) ?init"
  have N16: "?N < 16" using P(4) by (simp add: SCAN_SET_SIZE_def)
  have ok: "sbh_apply coeff resi numSig (minPos ?s) (finalChange ?s) \<noteq> None"
    if far: "int ?L - int ?F \<ge> SBH_THRESHOLD"
  proof -
    have FL: "?F < ?L" using far by (simp add: SBH_THRESHOLD_def)
    have ca: "coeff ! (scn ! (?N + 16 * cg)) \<noteq> 0 \<longrightarrow> ?N \<noteq> ?F"
    proof
      assume nz: "coeff ! (scn ! (?N + 16 * cg)) \<noteq> 0"
      have "?N = ?L"
      proof (rule ccontr)
        assume "?N \<noteq> ?L"
        then have "?L < ?N" using P(4) by (auto simp: SCAN_SET_SIZE_def split: if_splits)
        with after N16 nz show False by blast
      qed
      with FL show "?N \<noteq> ?F" by simp
    qed
    have cb: "coeff ! (scn ! (?N + 16 * cg)) = 0 \<longrightarrow> ?F \<le> ?N"
      using P(3,4) by (auto simp: SCAN_SET_SIZE_def)
    have "0 \<le> minPos (?step ?N ?init)"
      using dU N16 ca cb by (intro hdq_search_first_selected) simp_all
    moreover have e: "rev [0..<Suc ?N] = ?N # rev [0..<?N]" by simp
    have "?s = fold ?step (rev [0..<?N]) (?step ?N ?init)"
      unfolding e by (rule fold_simps(2))
    ultimately have nonneg: "0 \<le> minPos ?s"
      by (simp only: hdq_search_fold_minPos_nonneg)
    have "\<forall>n\<in>set (rev [0..<Suc ?N]). n < 16" using N16 by auto
    then have "search_inv coeff scn (16 * cg) ?s"
      by (intro hdq_search_fold_inv) (simp_all add: search_inv_def)
    with nonneg have "cand_ok coeff scn (16 * cg) (minPos ?s) (finalChange ?s)"
      by (auto simp: search_inv_def)
    then obtain n where "n < 16" "minPos ?s = int (scn ! (n + 16 * cg))"
      by (auto simp: cand_ok_def)
    with rng have "nat (minPos ?s) < length coeff" by simp
    with nonneg show ?thesis by (simp add: sbh_apply_def Let_def)
  qed
  show ?thesis
  proof (cases "int ?L - int ?F \<ge> SBH_THRESHOLD
                 \<and> ?sb \<noteq> sbh_absSum coeff scn (16 * cg) ?F ?L AND 1")
    case True
    with ok obtain a b where
      r: "sbh_apply coeff resi numSig (minPos ?s) (finalChange ?s) = Some (a, b)" by fastforce
    have "hdq_cg dU resi scn cg (numSig, coeff, lastCG) = Some (a, b, False)"
      unfolding hdq_cg_def using False True r
      by (simp add: SCAN_SET_SIZE_def P Let_def)
    then show ?thesis by blast
  next
    case no: False
    have "hdq_cg dU resi scn cg (numSig, coeff, lastCG) = Some (numSig, coeff, False)"
      unfolding hdq_cg_def using False no
      by (auto simp: SCAN_SET_SIZE_def P Let_def)
    then show ?thesis by blast
  qed
qed

lemma hdq_loop_total:
  assumes rng: "\<forall>j<16 * K. scn ! j < length coeff"
      and dU: "\<forall>j<16 * K. \<bar>dU ! (scn ! j)\<bar> < MAX_INT"
  shows "k \<le> K \<Longrightarrow> length c = length coeff \<Longrightarrow>
     \<exists>numSig' c' lc'. fold (\<lambda>cg r. case r of None \<Rightarrow> None | Some st \<Rightarrow> hdq_cg dU resi scn cg st)
        (rev [0..<k]) (Some (numSig, c, lc)) = Some (numSig', c', lc')"
proof (induction k arbitrary: numSig c lc)
  case 0
  then show ?case by simp
next
  case (Suc k)
  have r: "\<forall>n<16. scn ! (n + 16 * k) < length c" using rng Suc.prems by simp
  have d: "\<forall>n<16. \<bar>dU ! (scn ! (n + 16 * k))\<bar> < MAX_INT" using dU Suc.prems by simp
  from hdq_cg_total[OF r d] obtain n1 ca l1 where
    st: "hdq_cg dU resi scn k (numSig, c, lc) = Some (n1, ca, l1)" by blast
  from hdq_cg_cases[OF st] have "length ca = length c"
    by (auto dest!: sbh_apply_Some(3))
  with Suc.prems have "length ca = length coeff" "k \<le> K" by simp_all
  from Suc.IH[OF this(2,1)] st show ?case by simp
qed



lemma hdq_cg_inv:
  assumes st: "hdq_cg dU resi scn cg (numSig, c, lc) = Some (n1, ca, l1)"
      and sm: "signs_match resi c"
  shows "signs_match resi ca" and "length ca = length c"
    and "length c < 2 ^ 32 \<Longrightarrow> numSig = count_nonzero c \<Longrightarrow> n1 = count_nonzero ca"
proof -
  from hdq_cg_cases[OF st]
  consider (same) "ca = c" "n1 = numSig"
    | (chg) p f where "cand_ok c scn (16 * cg) p f" "sbh_apply c resi numSig p f = Some (n1, ca)"
    by blast
  then have "signs_match resi ca \<and> length ca = length c
     \<and> (length c < 2 ^ 32 \<longrightarrow> numSig = count_nonzero c \<longrightarrow> n1 = count_nonzero ca)"
  proof cases
    case same
    with sm show ?thesis by simp
  next
    case chg
    from chg(1) have f: "f = 1 \<or> f = - 1" and z: "c ! nat p = 0 \<longrightarrow> f = 1"
      by (auto simp: cand_ok_def)
    from sbh_apply_sign_count[OF chg(2) f z sm] sbh_apply_Some(3)[OF chg(2)]
    show ?thesis by (metis length_list_update)
  qed
  then show "signs_match resi ca" and "length ca = length c"
    and "length c < 2 ^ 32 \<Longrightarrow> numSig = count_nonzero c \<Longrightarrow> n1 = count_nonzero ca"
    by blast+
qed

lemma signBitHidingHDQ_inv:
  assumes run: "signBitHidingHDQ resi coeff dU numSig cp = Some (numSig', coeff')"
      and sm: "signs_match resi coeff"
  shows "signs_match resi coeff'" and "length coeff' = length coeff"
    and "length coeff < 2 ^ 32 \<Longrightarrow> numSig = count_nonzero coeff \<Longrightarrow> numSig' = count_nonzero coeff'"
proof -
  let ?P = "\<lambda>(n, c, l::bool). signs_match resi c \<and> length c = length coeff
              \<and> (length coeff < 2 ^ 32 \<longrightarrow> numSig = count_nonzero coeff \<longrightarrow> n = count_nonzero c)"
  obtain lc' where f: "fold (\<lambda>cg r. case r of None \<Rightarrow> None | Some st \<Rightarrow> hdq_cg dU resi (scan cp) cg st)
        (rev [0..<push_bit (log2TrSizeCG cp * 2) 1]) (Some (numSig, coeff, True)) = Some (numSig', coeff', lc')"
    using run unfolding signBitHidingHDQ_def by (auto split: option.splits)
  have "?P (numSig', coeff', lc')"
  proof (rule fold_option_inv[OF f, where P = ?P])
    show "?P (numSig, coeff, True)" using sm by simp
  next
    fix x st st'
    assume "?P st" and s: "hdq_cg dU resi (scan cp) x st = Some st'"
    then show "?P st'"
      using hdq_cg_inv[of dU resi "scan cp" x "fst st" "fst (snd st)" "snd (snd st)"
                          "fst st'" "fst (snd st')" "snd (snd st')"]
      by (cases st; cases st') auto
  qed
  then show "signs_match resi coeff'" and "length coeff' = length coeff"
    and "length coeff < 2 ^ 32 \<Longrightarrow> numSig = count_nonzero coeff \<Longrightarrow> numSig' = count_nonzero coeff'"
    by auto
qed

text \<open>
  Claim C9. \<^verbatim>\<open>signBitHidingHDQ\<close> returns, and for every coefficient group: when the distance
  between the group's first and last non-zero scan positions is at least
  \<^verbatim>\<open>SBH_THRESHOLD\<close> and the sign bit of the first non-zero level differs from the parity of
  the sum of the absolute levels, exactly one coefficient of the group changes, by one in
  absolute value; otherwise the group is unchanged. No coefficient outside the scanned
  groups changes. (The scan is a table of distinct block positions inside the array, and
  the entries of \<open>dU\<close> are inside the \<^verbatim>\<open>int\<close> range, short of its two end values.)
\<close>

theorem signBitHidingHDQ_effect:
  assumes rng: "\<forall>x\<in>set (scan cp). x < length coeff"
      and dU: "\<forall>x\<in>set (scan cp). \<bar>dU ! x\<bar> < MAX_INT"
      and dist: "distinct (scan cp)"
      and len: "16 * 2 ^ (log2TrSizeCG cp * 2) \<le> length (scan cp)"
  shows "\<exists>numSig' coeff'.
       signBitHidingHDQ resi coeff dU numSig cp = Some (numSig', coeff')
       \<and> length coeff' = length coeff
       \<and> (\<forall>cg < 2 ^ (log2TrSizeCG cp * 2).
             sbh_group_effect (cg_levels coeff (scan cp) cg) (cg_levels coeff' (scan cp) cg))
       \<and> (\<forall>i. i \<notin> set (take (16 * 2 ^ (log2TrSizeCG cp * 2)) (scan cp))
             \<longrightarrow> coeff' ! i = coeff ! i)"
proof -
  let ?K = "2 ^ (log2TrSizeCG cp * 2) :: nat"
  have pb: "push_bit (log2TrSizeCG cp * 2) (1::nat) = ?K"
    by (simp add: push_bit_eq_mult)
  have rng': "\<forall>j<16 * ?K. scan cp ! j < length coeff"
    using rng len by simp
  have dU': "\<forall>j<16 * ?K. \<bar>dU ! (scan cp ! j)\<bar> < MAX_INT"
    using dU len by simp
  from hdq_loop_total[OF rng' dU' le_refl refl, of resi numSig True]
  obtain numSig' coeff' where
    "signBitHidingHDQ resi coeff dU numSig cp = Some (numSig', coeff')"
    unfolding signBitHidingHDQ_def pb by auto
  with signBitHidingHDQ_effect_run[OF this dist len] show ?thesis by blast
qed

theorem signBitHidingHDQ_effect_witness:
  "signBitHidingHDQ ex_hdq_resi ex_hdq_coeff ex_hdq_deltaU 2 ex_cp4
     = Some (3, [2, 0, 1, 0, 0, 1, 0, 0, 0, 0, 0, 0, 0, 0, 0, 0])
   \<and> sbh_condition (cg_levels ex_hdq_coeff ex_scan4 0)
   \<and> sbh_group_effect (cg_levels ex_hdq_coeff ex_scan4 0)
        (cg_levels [2, 0, 1, 0, 0, 1, 0, 0, 0, 0, 0, 0, 0, 0, 0, 0] ex_scan4 0)"
proof -
  have r: "\<forall>x\<in>set (scan ex_cp4). x < length ex_hdq_coeff"
    by (simp add: ex_cp4_def ex_scan4_def ex_hdq_coeff_def)
  have u: "\<forall>x\<in>set (scan ex_cp4). \<bar>ex_hdq_deltaU ! x\<bar> < MAX_INT"
    by (simp add: ex_cp4_def ex_scan4_def ex_hdq_deltaU_def MAX_INT_def)
  have d: "distinct (scan ex_cp4)" by (simp add: ex_cp4_def ex_scan4_def)
  have l: "16 * 2 ^ (log2TrSizeCG ex_cp4 * 2) \<le> length (scan ex_cp4)"
    by (simp add: ex_cp4_def ex_scan4_def)
  have c: "sbh_condition (cg_levels ex_hdq_coeff ex_scan4 0)" by code_simp
  from signBitHidingHDQ_effect[OF r u d l, of ex_hdq_resi 2] ex_hdq_run c show ?thesis
    by (auto simp: ex_cp4_def)
qed

section \<open>The main loop of rdoQuant keeps the levels between zero and the quantised magnitudes\<close>

lemma rdoq_cabac_update_proj [simp]:
  "dstCoeff (rdoq_cabac_update b sp l bl st) = dstCoeff st"
  "lastScanPos (rdoq_cabac_update b sp l bl st) = lastScanPos st"
  "cgLastScanPos (rdoq_cabac_update b sp l bl st) = cgLastScanPos st"
  by (simp_all add: rdoq_cabac_update_def Let_def)

lemma rdoq_try_level_fst:
  "fst (rdoq_try_level E blkPos ci bl g l gr sb lvl acc) = lvl
   \<or> rdoq_try_level E blkPos ci bl g l gr sb lvl acc = acc"
  by (simp add: rdoq_try_level_def Let_def)

lemma rdoq_levels_fold_range:
  assumes "\<forall>x\<in>set xs. lo \<le> x \<and> x \<le> hi" "fst acc = 0 \<or> (lo \<le> fst acc \<and> fst acc \<le> hi)"
  shows "fst (fold (rdoq_try_level E blkPos ci bl g l gr sb) xs acc) = 0
       \<or> (lo \<le> fst (fold (rdoq_try_level E blkPos ci bl g l gr sb) xs acc)
          \<and> fst (fold (rdoq_try_level E blkPos ci bl g l gr sb) xs acc) \<le> hi)"
  using assms
proof (induction xs arbitrary: acc)
  case Nil
  then show ?case by simp
next
  case (Cons x xs)
  have "fst (rdoq_try_level E blkPos ci bl g l gr sb x acc) = 0
      \<or> (lo \<le> fst (rdoq_try_level E blkPos ci bl g l gr sb x acc)
          \<and> fst (rdoq_try_level E blkPos ci bl g l gr sb x acc) \<le> hi)"
    using rdoq_try_level_fst[of E blkPos ci bl g l gr sb x acc] Cons.prems by auto
  with Cons.IH[of "rdoq_try_level E blkPos ci bl g l gr sb x acc"] Cons.prems(1)
  show ?case by simp
qed

lemma rdoq_levels_range:
  assumes "0 \<le> m"
  shows "0 \<le> fst (rdoq_levels E blkPos ci bl g l gr sb m cc cs)
       \<and> fst (rdoq_levels E blkPos ci bl g l gr sb m cc cs) \<le> m"
proof (cases "m = 0")
  case True
  then show ?thesis by (simp add: rdoq_levels_def)
next
  case False
  let ?lo = "max (u32 (m - 1)) 1"
  have "\<forall>x\<in>set (rev [?lo..m]). 1 \<le> x \<and> x \<le> m" by auto
  from rdoq_levels_fold_range[OF this, of "(0, cc, cs)" E blkPos ci bl g l gr sb]
  show ?thesis using False assms by (auto simp: rdoq_levels_def Let_def)
qed

lemma rdoq_coded_proj:
  "dstCoeff (rdoq_coded E pat scanPos blkPos st) =
     (dstCoeff st)[blkPos := fst (rdoq_levels E blkPos (rdoq_c1c2Idx st) (rdoq_baseLevel (rdoq_c1c2Idx st))
        (greaterOneBits (e_est E) (nat (u32 (4 * ctxSet st + c1 st))))
        (levelAbsBits (e_est E) (nat (u32 (ctxSet st + c2 st)))) (goRiceParam st)
        (snd (snd (snd (rdoq_sig E pat scanPos blkPos \<bar>dstCoeff st ! blkPos\<bar> st))))
        \<bar>dstCoeff st ! blkPos\<bar>
        (fst (rdoq_sig E pat scanPos blkPos \<bar>dstCoeff st ! blkPos\<bar> st))
        (fst (snd (rdoq_sig E pat scanPos blkPos \<bar>dstCoeff st ! blkPos\<bar> st))))]"
  "lastScanPos (rdoq_coded E pat scanPos blkPos st) = lastScanPos st"
  "cgLastScanPos (rdoq_coded E pat scanPos blkPos st) = cgLastScanPos st"
  by (simp_all add: rdoq_coded_def Let_def)

lemma rdoq_coded_level:
  "\<exists>level. 0 \<le> level \<and> level \<le> \<bar>dstCoeff st ! blkPos\<bar>
     \<and> dstCoeff (rdoq_coded E pat scanPos blkPos st) = (dstCoeff st)[blkPos := level]"
  unfolding rdoq_coded_proj(1)
  by (intro exI conjI refl) (simp_all add: rdoq_levels_range)

lemma rdoq_cg_stats_proj [simp]:
  "dstCoeff (rdoq_cg_stats D scanPos blkPos n m st) = dstCoeff st"
  "lastScanPos (rdoq_cg_stats D scanPos blkPos n m st) = lastScanPos st"
  "cgLastScanPos (rdoq_cg_stats D scanPos blkPos n m st) = cgLastScanPos st"
  by (simp_all add: rdoq_cg_stats_def Let_def)

lemma rdoq_coeff_lastScanPos:
  "lastScanPos (rdoq_coeff E cg pat m n st) =
     (if dstCoeff st ! (scan (e_cp E) ! (16 * cg + n)) \<noteq> 0 \<and> lastScanPos st < 0
      then int (16 * cg + n) else lastScanPos st)"
  by (simp add: rdoq_coeff_def Let_def MLS_CG_SIZE_def push_bit_eq_mult rdoq_coded_proj
        mult.commute[of cg 16])

lemma rdoq_coeff_dstCoeff:
  "\<exists>level. 0 \<le> level \<and> level \<le> \<bar>dstCoeff st ! (scan (e_cp E) ! (16 * cg + n))\<bar>
     \<and> dstCoeff (rdoq_coeff E cg pat m n st) =
         (if lastScanPos (rdoq_coeff E cg pat m n st) < 0 then dstCoeff st
          else (dstCoeff st)[scan (e_cp E) ! (16 * cg + n) := level])"
proof -
  let ?sp = "16 * cg + n"
  let ?bp = "scan (e_cp E) ! ?sp"
  let ?st1 = "st\<lparr> costUncoded := (costUncoded st)[?sp := rdoq_costUncoded E ?bp],
                    totalUncodedCost := fp_add (e_D E) (totalUncodedCost st) (rdoq_costUncoded E ?bp) \<rparr>"
  let ?st2 = "if dstCoeff st ! ?bp \<noteq> 0 \<and> lastScanPos st < 0
              then ?st1\<lparr> lastScanPos := int ?sp,
                         ctxSet := (if ?sp < SCAN_SET_SIZE \<or> \<not> e_bIsLuma E then 0 else 2),
                         cgLastScanPos := int cg \<rparr>
              else ?st1"
  from rdoq_coded_level[of ?st2 ?bp E pat ?sp]
  obtain level where lv: "0 \<le> level" "level \<le> \<bar>dstCoeff ?st2 ! ?bp\<bar>"
     "dstCoeff (rdoq_coded E pat ?sp ?bp ?st2) = (dstCoeff ?st2)[?bp := level]" by blast
  have d2: "dstCoeff ?st2 = dstCoeff st" by simp
  have "dstCoeff (rdoq_coeff E cg pat m n st) =
         (if lastScanPos (rdoq_coeff E cg pat m n st) < 0 then dstCoeff st
          else (dstCoeff st)[?bp := level])"
    using lv(3) unfolding d2
    by (simp add: rdoq_coeff_def Let_def MLS_CG_SIZE_def push_bit_eq_mult rdoq_coded_proj(2)
          mult.commute[of cg 16])
  with lv(1,2) d2 show ?thesis by auto
qed


lemma scan_ok_neq:
  "scan_ok scn N \<Longrightarrow> q < N \<Longrightarrow> q' < N \<Longrightarrow> q' \<noteq> q \<Longrightarrow> scn ! q' \<noteq> scn ! q"
  by (simp add: scan_ok_def nth_eq_iff_index_eq)

lemma scan_ok_lt: "scan_ok scn N \<Longrightarrow> q < N \<Longrightarrow> scn ! q < N"
  by (simp add: scan_ok_def)

lemma rdoq_coeff_inv:
  assumes ok: "scan_ok (scan (e_cp E)) N" and len: "length d0 = N" and q: "16 * cg + n < N"
      and inv: "rdoq_inv (scan (e_cp E)) d0 (Suc (16 * cg + n)) st"
  shows "rdoq_inv (scan (e_cp E)) d0 (16 * cg + n) (rdoq_coeff E cg pat m n st)"
proof -
  let ?scn = "scan (e_cp E)" and ?q = "16 * cg + n"
  let ?st' = "rdoq_coeff E cg pat m n st"
  let ?bp = "?scn ! ?q"
  have lscn: "length ?scn = N" using ok by (simp add: scan_ok_def)
  have bp: "?bp < length (dstCoeff st)" using inv len scan_ok_lt[OF ok q] by (simp add: rdoq_inv_def)
  have neq: "\<And>q'. q' < N \<Longrightarrow> q' \<noteq> ?q \<Longrightarrow> ?scn ! q' \<noteq> ?bp"
    using scan_ok_neq[OF ok q] by blast
  have old: "dstCoeff st ! ?bp = d0 ! ?bp" using inv q lscn by (simp add: rdoq_inv_def)
  from rdoq_coeff_dstCoeff[of st E cg n pat m]
  obtain level where lv: "0 \<le> level" "level \<le> \<bar>dstCoeff st ! ?bp\<bar>"
    and d': "dstCoeff ?st' = (if lastScanPos ?st' < 0 then dstCoeff st else (dstCoeff st)[?bp := level])"
    by blast
  note l' = rdoq_coeff_lastScanPos[of E cg pat m n st]
  show ?thesis
  proof (cases "lastScanPos ?st' < 0")
    case True
    then have z: "dstCoeff st ! ?bp = 0" and same: "lastScanPos ?st' = lastScanPos st"
      using l' by (auto split: if_splits)
    have d: "dstCoeff ?st' = dstCoeff st" using d' True by simp
    have L: "lastScanPos st < 0" using True same by simp
    show ?thesis
      unfolding rdoq_inv_def d same lscn
    proof (intro conjI allI impI)
      show "length (dstCoeff st) = length d0" using inv by (simp add: rdoq_inv_def)
      show "lastScanPos st < int N" using L by simp
      show "lastScanPos st < 0 \<or> int ?q \<le> lastScanPos st" using L by simp
    next
      fix q' assume "q' < N" "q' < ?q"
      then show "dstCoeff st ! (?scn ! q') = d0 ! (?scn ! q')"
        using inv lscn by (simp add: rdoq_inv_def)
    next
      fix q' assume a: "q' < N" "?q \<le> q'"
      then consider "q' = ?q" | "Suc ?q \<le> q'" by linarith
      then have "dstCoeff st ! (?scn ! q') = 0"
      proof cases
        case 1
        then show ?thesis using z by simp
      next
        case 2
        then show ?thesis using inv a lscn L by (simp add: rdoq_inv_def)
      qed
      then show "0 \<le> dstCoeff st ! (?scn ! q')"
        and "dstCoeff st ! (?scn ! q') \<le> \<bar>d0 ! (?scn ! q')\<bar>" by simp_all
    next
      fix q' assume a: "q' < N" "?q \<le> q' \<and> lastScanPos st < int q'"
      then consider "q' = ?q" | "Suc ?q \<le> q'" by linarith
      then show "dstCoeff st ! (?scn ! q') = 0"
      proof cases
        case 1
        then show ?thesis using z by simp
      next
        case 2
        then show ?thesis using inv a lscn L by (simp add: rdoq_inv_def)
      qed
    qed
  next
    case False
    then have d: "dstCoeff ?st' = (dstCoeff st)[?bp := level]" using d' by simp
    have lq: "int ?q \<le> lastScanPos ?st'" "lastScanPos ?st' < int N"
      using l' False inv q lscn by (auto simp: rdoq_inv_def split: if_splits)
    have nb: "\<And>q'. q' < N \<Longrightarrow> lastScanPos ?st' < int q' \<Longrightarrow> lastScanPos st < int q'"
      using l' by (auto split: if_splits)
    show ?thesis
      unfolding rdoq_inv_def lscn
    proof (intro conjI allI impI)
      show "length (dstCoeff ?st') = length d0" using d inv by (simp add: rdoq_inv_def)
      show "lastScanPos ?st' < int N" by (rule lq(2))
      show "lastScanPos ?st' < 0 \<or> int ?q \<le> lastScanPos ?st'" using lq(1) by simp
    next
      fix q' assume a: "q' < N" "q' < ?q"
      then have "dstCoeff ?st' ! (?scn ! q') = dstCoeff st ! (?scn ! q')"
        using neq[of q'] by (simp add: d)
      then show "dstCoeff ?st' ! (?scn ! q') = d0 ! (?scn ! q')"
        using inv a lscn by (simp add: rdoq_inv_def)
    next
      fix q' assume a: "q' < N" "?q \<le> q'"
      show "0 \<le> dstCoeff ?st' ! (?scn ! q')"
      proof (cases "q' = ?q")
        case True
        then show ?thesis using lv bp by (simp add: d)
      next
        case ne: False
        then have "dstCoeff ?st' ! (?scn ! q') = dstCoeff st ! (?scn ! q')"
          using neq[of q'] a by (simp add: d)
        then show ?thesis using inv a ne lscn by (simp add: rdoq_inv_def)
      qed
      show "dstCoeff ?st' ! (?scn ! q') \<le> \<bar>d0 ! (?scn ! q')\<bar>"
      proof (cases "q' = ?q")
        case True
        then show ?thesis using lv bp old by (simp add: d)
      next
        case ne: False
        then have "dstCoeff ?st' ! (?scn ! q') = dstCoeff st ! (?scn ! q')"
          using neq[of q'] a by (simp add: d)
        then show ?thesis using inv a ne lscn by (simp add: rdoq_inv_def)
      qed
    next
      fix q' assume a: "q' < N" "?q \<le> q' \<and> lastScanPos ?st' < int q'"
      then have ne: "q' \<noteq> ?q" using lq(1) by auto
      then have "dstCoeff ?st' ! (?scn ! q') = dstCoeff st ! (?scn ! q')"
        using neq[of q'] a by (simp add: d)
      then show "dstCoeff ?st' ! (?scn ! q') = 0"
        using inv a ne lscn nb[of q'] by (simp add: rdoq_inv_def)
    qed
  qed
qed

lemma rdoq_inv_cong:
  "dstCoeff st' = dstCoeff st \<Longrightarrow> lastScanPos st' = lastScanPos st
     \<Longrightarrow> rdoq_inv scn d0 k st' = rdoq_inv scn d0 k st"
  by (simp add: rdoq_inv_def)

lemma rdoq_coeff_loop_inv:
  assumes ok: "scan_ok (scan (e_cp E)) N" and len: "length d0 = N"
  shows "16 * cg + n \<le> N \<Longrightarrow> rdoq_inv (scan (e_cp E)) d0 (16 * cg + n) st
     \<Longrightarrow> rdoq_inv (scan (e_cp E)) d0 (16 * cg) (for_down (rdoq_coeff E cg pat m) n st)"
proof (induction n arbitrary: st)
  case 0
  then show ?case by simp
next
  case (Suc n)
  have "rdoq_inv (scan (e_cp E)) d0 (16 * cg + n) (rdoq_coeff E cg pat m n st)"
    using Suc.prems by (intro rdoq_coeff_inv[OF ok len]) simp_all
  with Suc.IH[of "rdoq_coeff E cg pat m n st"] Suc.prems(1) show ?case by simp
qed

lemma rdoq_uncode_coeff_proj:
  "dstCoeff (rdoq_uncode_coeff E cg n st) = (dstCoeff st)[scan (e_cp E) ! (16 * cg + n) := 0]"
  "lastScanPos (rdoq_uncode_coeff E cg n st) = lastScanPos st"
  "cgLastScanPos (rdoq_uncode_coeff E cg n st) = cgLastScanPos st"
  by (simp_all add: rdoq_uncode_coeff_def Let_def MLS_CG_SIZE_def mult.commute[of cg 16])

lemma rdoq_inv_zero_update:
  assumes ok: "scan_ok scn N" and q: "q < N" and kq: "k \<le> q"
      and inv: "rdoq_inv scn d0 k st"
      and d: "dstCoeff st' = (dstCoeff st)[scn ! q := 0]"
      and l: "lastScanPos st' = lastScanPos st"
  shows "rdoq_inv scn d0 k st'"
proof -
  have lscn: "length scn = N" using ok by (simp add: scan_ok_def)
  have neq: "\<And>q'. q' < N \<Longrightarrow> q' \<noteq> q \<Longrightarrow> scn ! q \<noteq> scn ! q'"
    using scan_ok_neq[OF ok q] by fastforce
  have other: "dstCoeff st' ! (scn ! q') = dstCoeff st ! (scn ! q')" if "q' < N" "q' \<noteq> q" for q'
    using neq[OF that] by (simp add: d)
  have z: "dstCoeff st' ! (scn ! q) = 0 \<or> dstCoeff st' ! (scn ! q) = dstCoeff st ! (scn ! q)"
    by (cases "scn ! q < length (dstCoeff st)") (simp_all add: d list_update_beyond)
  have I1: "length (dstCoeff st) = length d0"
    and I2: "lastScanPos st < int N" "lastScanPos st < 0 \<or> int k \<le> lastScanPos st"
    and I3: "\<And>q'. q' < N \<Longrightarrow> q' < k \<Longrightarrow> dstCoeff st ! (scn ! q') = d0 ! (scn ! q')"
    and I4: "\<And>q'. q' < N \<Longrightarrow> k \<le> q' \<Longrightarrow> 0 \<le> dstCoeff st ! (scn ! q')"
    and I5: "\<And>q'. q' < N \<Longrightarrow> k \<le> q' \<Longrightarrow> dstCoeff st ! (scn ! q') \<le> \<bar>d0 ! (scn ! q')\<bar>"
    and I6: "\<And>q'. q' < N \<Longrightarrow> k \<le> q' \<Longrightarrow> lastScanPos st < int q' \<Longrightarrow> dstCoeff st ! (scn ! q') = 0"
    using inv unfolding rdoq_inv_def lscn by blast+
  show ?thesis
    unfolding rdoq_inv_def lscn l
  proof (intro conjI allI impI)
    show "length (dstCoeff st') = length d0" using I1 by (simp add: d)
    show "lastScanPos st < int N" by (rule I2(1))
    show "lastScanPos st < 0 \<or> int k \<le> lastScanPos st" by (rule I2(2))
  next
    fix q' assume a: "q' < N" "q' < k"
    then have "q' \<noteq> q" using kq by simp
    then show "dstCoeff st' ! (scn ! q') = d0 ! (scn ! q')" using other[of q'] I3[of q'] a by simp
  next
    fix q' assume a: "q' < N" "k \<le> q'"
    show "0 \<le> dstCoeff st' ! (scn ! q')"
    proof (cases "q' = q")
      case True
      then show ?thesis using z I4[of q] a by auto
    next
      case False
      then show ?thesis using other[of q'] I4[of q'] a by simp
    qed
    show "dstCoeff st' ! (scn ! q') \<le> \<bar>d0 ! (scn ! q')\<bar>"
    proof (cases "q' = q")
      case True
      then show ?thesis using z I5[of q] a by auto
    next
      case False
      then show ?thesis using other[of q'] I5[of q'] a by simp
    qed
  next
    fix q' assume a: "q' < N" "k \<le> q' \<and> lastScanPos st < int q'"
    show "dstCoeff st' ! (scn ! q') = 0"
    proof (cases "q' = q")
      case True
      then show ?thesis using z I6[of q] a by auto
    next
      case False
      then show ?thesis using other[of q'] I6[of q'] a by simp
    qed
  qed
qed

lemma rdoq_uncode_coeff_inv:
  assumes ok: "scan_ok (scan (e_cp E)) N" and q: "16 * cg + n < N"
      and inv: "rdoq_inv (scan (e_cp E)) d0 (16 * cg) st"
  shows "rdoq_inv (scan (e_cp E)) d0 (16 * cg) (rdoq_uncode_coeff E cg n st)"
  by (rule rdoq_inv_zero_update[OF ok q _ inv]) (simp_all add: rdoq_uncode_coeff_proj)

lemma rdoq_uncode_loop_inv:
  assumes ok: "scan_ok (scan (e_cp E)) N"
  shows "16 * cg + n \<le> N \<Longrightarrow> rdoq_inv (scan (e_cp E)) d0 (16 * cg) st
     \<Longrightarrow> rdoq_inv (scan (e_cp E)) d0 (16 * cg) (for_down (rdoq_uncode_coeff E cg) n st)"
proof (induction n arbitrary: st)
  case 0
  then show ?case by simp
next
  case (Suc n)
  have "rdoq_inv (scan (e_cp E)) d0 (16 * cg) (rdoq_uncode_coeff E cg n st)"
    using Suc.prems by (intro rdoq_uncode_coeff_inv[OF ok]) simp_all
  with Suc.IH[of "rdoq_uncode_coeff E cg n st"] Suc.prems(1) show ?case by simp
qed

lemma rdoq_uncode_loop_proj:
  "lastScanPos (for_down (rdoq_uncode_coeff E cg) n st) = lastScanPos st"
  "cgLastScanPos (for_down (rdoq_uncode_coeff E cg) n st) = cgLastScanPos st"
  by (induction n arbitrary: st) (simp_all add: rdoq_uncode_coeff_proj)

lemma rdoq_cg_summary_costs_proj [simp]:
  "dstCoeff (fst (rdoq_cg_summary_costs E cg x y m st)) = dstCoeff st"
  "lastScanPos (fst (rdoq_cg_summary_costs E cg x y m st)) = lastScanPos st"
  "cgLastScanPos (fst (rdoq_cg_summary_costs E cg x y m st)) = cgLastScanPos st"
  by (simp_all add: rdoq_cg_summary_costs_def Let_def)

lemma rdoq_cg_summary_unfold:
  "rdoq_cg_summary E cg x y m st =
     (if snd (rdoq_cg_summary_costs E cg x y m st)
      then for_down (rdoq_uncode_coeff E cg) 16 (fst (rdoq_cg_summary_costs E cg x y m st))
      else fst (rdoq_cg_summary_costs E cg x y m st))"
  by (simp only: rdoq_cg_summary_def Let_def MLS_CG_SIZE_def) simp

lemma rdoq_cg_summary_inv:
  assumes ok: "scan_ok (scan (e_cp E)) N" and le: "16 * cg + 16 \<le> N"
      and inv: "rdoq_inv (scan (e_cp E)) d0 (16 * cg) st"
  shows "rdoq_inv (scan (e_cp E)) d0 (16 * cg) (rdoq_cg_summary E cg x y m st)"
proof -
  let ?r = "rdoq_cg_summary_costs E cg x y m st"
  have "rdoq_inv (scan (e_cp E)) d0 (16 * cg) (fst ?r) = rdoq_inv (scan (e_cp E)) d0 (16 * cg) st"
    by (rule rdoq_inv_cong) (rule rdoq_cg_summary_costs_proj)+
  then have i: "rdoq_inv (scan (e_cp E)) d0 (16 * cg) (fst ?r)" using inv by blast
  show ?thesis
  proof (cases "snd ?r")
    case True
    then have "rdoq_cg_summary E cg x y m st = for_down (rdoq_uncode_coeff E cg) 16 (fst ?r)"
      by (simp only: rdoq_cg_summary_unfold if_True)
    then show ?thesis using rdoq_uncode_loop_inv[OF ok le i] by (simp only:)
  next
    case False
    then have "rdoq_cg_summary E cg x y m st = fst ?r"
      by (simp only: rdoq_cg_summary_unfold if_False)
    then show ?thesis using i by (simp only:)
  qed
qed

lemma rdoq_cg_inv:
  assumes ok: "scan_ok (scan (e_cp E)) N" and len: "length d0 = N" and le: "16 * Suc cg \<le> N"
      and inv: "rdoq_inv (scan (e_cp E)) d0 (16 * Suc cg) st"
  shows "rdoq_inv (scan (e_cp E)) d0 (16 * cg) (rdoq_cg E cg st)"
proof -
  have le': "16 * cg + 16 \<le> N" using le by simp
  have inv': "rdoq_inv (scan (e_cp E)) d0 (16 * cg + 16) st"
    using inv by (simp add: add.commute)
  have inv0: "rdoq_inv (scan (e_cp E)) d0 (16 * cg + 16) (st\<lparr> cgRdStats := g \<rparr>)" for g
    using inv' by (simp add: rdoq_inv_def)
  have "rdoq_inv (scan (e_cp E)) d0 (16 * cg)
          (rdoq_cg_summary E cg x y m (for_down (rdoq_coeff E cg pat m) 16 (st\<lparr> cgRdStats := g \<rparr>)))"
    for x y m pat g
    by (intro rdoq_cg_summary_inv[OF ok le'] rdoq_coeff_loop_inv[OF ok len le'] inv0)
  then show ?thesis
    unfolding rdoq_cg_def Let_def MLS_CG_SIZE_def by simp
qed

lemma rdoq_main_loop_inv:
  assumes ok: "scan_ok (scan (e_cp E)) N" and len: "length d0 = N"
  shows "16 * k \<le> N \<Longrightarrow> rdoq_inv (scan (e_cp E)) d0 (16 * k) st
     \<Longrightarrow> rdoq_inv (scan (e_cp E)) d0 0 (for_down (rdoq_cg E) k st)"
proof (induction k arbitrary: st)
  case 0
  then show ?case by simp
next
  case (Suc k)
  have "rdoq_inv (scan (e_cp E)) d0 (16 * k) (rdoq_cg E k st)"
    using Suc.prems by (intro rdoq_cg_inv[OF ok len])
  with Suc.IH[of "rdoq_cg E k st"] Suc.prems(1) show ?case by simp
qed

lemma rdoq_init_inv:
  "length d0 = N \<Longrightarrow> length scn = N \<Longrightarrow> rdoq_inv scn d0 N (rdoq_init_state D n d0)"
  by (simp add: rdoq_inv_def rdoq_init_state_def)

section \<open>The transquant-bypass path\<close>

lemma cvt16to32_cnt_length:
  "length (snd (cvt16to32_cnt P N residual stride)) = N * N"
  by (simp add: cvt16to32_cnt_def Let_def)

lemma cvt16to32_cnt_nth:
  assumes "y < N" "x < N"
  shows "snd (cvt16to32_cnt P N residual stride) ! (y * N + x) = sint (residual ! (y * stride + x))"
proof -
  have lt: "y * N + x < N * N"
  proof -
    have "y * N + x < y * N + N" using assms by simp
    also have "\<dots> = Suc y * N" by simp
    also have "\<dots> \<le> N * N" using assms by (metis Suc_leI mult_le_mono1)
    finally show ?thesis .
  qed
  have dm: "(y * N + x) div N = y" "(y * N + x) mod N = x" using assms by simp_all
  show ?thesis using lt by (simp add: cvt16to32_cnt_def Let_def dm del: mod_mult_self3 div_mult_self3)
qed

lemma upt16: "[0..<16] = [0,1,2,3,4,5,6,7,8,9,10,11,12,13,14,15::nat]"
  by (simp add: upt_rec)

lemma fold_update_fun:
  "length (fold (\<lambda>j r. r[f j := h (f j)]) js r) = length r
   \<and> (\<forall>p<length r. fold (\<lambda>j r. r[f j := h (f j)]) js r ! p = (if p \<in> f ` set js then h p else r ! p))"
proof (induction js arbitrary: r)
  case Nil
  then show ?case by simp
next
  case (Cons j js)
  show ?case
  proof (intro conjI allI impI)
    show "length (fold (\<lambda>j r. r[f j := h (f j)]) (j # js) r) = length r"
      using Cons[of "r[f j := h (f j)]"] by simp
  next
    fix p assume p: "p < length r"
    have "fold (\<lambda>j r. r[f j := h (f j)]) (j # js) r ! p
            = (if p \<in> f ` set js then h p else r[f j := h (f j)] ! p)"
      using Cons[of "r[f j := h (f j)]"] p by simp
    also have "\<dots> = (if p \<in> f ` set (j # js) then h p else r ! p)"
      using p by (cases "f j = p") auto
    finally show "fold (\<lambda>j r. r[f j := h (f j)]) (j # js) r ! p
            = (if p \<in> f ` set (j # js) then h p else r ! p)" .
  qed
qed

lemma fold_rows:
  assumes "\<And>k r. k \<in> set ks \<Longrightarrow> length (F k r) = length r
              \<and> (\<forall>p<length r. F k r ! p = (if p \<in> S k then h p else r ! p))"
  shows "length (fold F ks r) = length r
     \<and> (\<forall>p<length r. fold F ks r ! p = (if p \<in> (\<Union>k\<in>set ks. S k) then h p else r ! p))"
  using assms
proof (induction ks arbitrary: r)
  case Nil
  then show ?case by simp
next
  case (Cons k ks)
  have step: "length (F k r) = length r" "\<And>p. p < length r \<Longrightarrow> F k r ! p = (if p \<in> S k then h p else r ! p)"
    using Cons.prems[of k r] by simp_all
  have ih: "length (fold F ks (F k r)) = length (F k r)"
     "\<And>p. p < length (F k r) \<Longrightarrow> fold F ks (F k r) ! p = (if p \<in> (\<Union>k\<in>set ks. S k) then h p else F k r ! p)"
    using Cons.IH[of "F k r"] Cons.prems by simp_all
  show ?case
  proof (intro conjI allI impI)
    show "length (fold F (k # ks) r) = length r" using ih(1) step(1) by simp
  next
    fix p assume p: "p < length r"
    show "fold F (k # ks) r ! p = (if p \<in> (\<Union>k\<in>set (k # ks). S k) then h p else r ! p)"
      using ih(2)[of p] step(2)[of p] step(1) p by simp
  qed
qed

lemma inv_bypass_copy_of_copy:
  fixes residual out :: "16 word list"
  assumes coeff_def: "coeff = snd (cvt16to32_cnt P N residual stride)"
  shows "length (inv_bypass_copy N out stride coeff) = length out
     \<and> (\<forall>p<length out. inv_bypass_copy N out stride coeff ! p
           = (if p \<in> (\<Union>k\<in>set [0..<N]. (\<lambda>j. k * stride + j) ` set [0..<N]) then residual ! p else out ! p))"
  unfolding inv_bypass_copy_def
proof (rule fold_rows)
  fix k r assume k: "k \<in> set [0..<N]"
  have "fold (\<lambda>j r'. r'[k * stride + j := word_of_int (coeff ! (k * N + j))]) [0..<N] r
          = fold (\<lambda>j r'. r'[k * stride + j := residual ! (k * stride + j)]) [0..<N] r"
  proof (rule fold_cong[OF refl refl])
    fix j assume "j \<in> set [0..<N]"
    then have "coeff ! (k * N + j) = sint (residual ! (k * stride + j))"
      using k unfolding coeff_def by (intro cvt16to32_cnt_nth) simp_all
    then show "(\<lambda>r'. r'[k * stride + j := word_of_int (coeff ! (k * N + j))])
             = (\<lambda>r'. r'[k * stride + j := residual ! (k * stride + j)])"
      by simp
  qed
  then show "length (fold (\<lambda>j r'. r'[k * stride + j := word_of_int (coeff ! (k * N + j))]) [0..<N] r)
               = length r
           \<and> (\<forall>p<length r. fold (\<lambda>j r'. r'[k * stride + j := word_of_int (coeff ! (k * N + j))]) [0..<N] r ! p
                = (if p \<in> (\<lambda>j. k * stride + j) ` set [0..<N] then residual ! p else r ! p))"
    using fold_update_fun[of "\<lambda>j. k * stride + j" "\<lambda>p. residual ! p" "[0..<N]" r] by simp
qed

lemma inv_bypass_copy_in_place:
  "inv_bypass_copy N residual stride (snd (cvt16to32_cnt P N residual stride)) = residual"
  using inv_bypass_copy_of_copy[OF refl, where N = N and residual = residual and stride = stride and out = residual and P = P]
  by (intro nth_equalityI) simp_all

text \<open>
  Claim C4. With transquant bypass set, \<^verbatim>\<open>invtransformNxN\<close> on the levels of \<^verbatim>\<open>transformNxN\<close>
  reproduces the residual exactly: written over the residual buffer it returns that buffer;
  written into another buffer \<open>out\<close> it sets every sample of the block to the sample of
  the residual and leaves the others.
\<close>

theorem bypass_round_trip:
  assumes "cuTransquantBypass cu"
      and "transformNxN K D P Q cu fenc fencStride residual stride log2TrSize ttype useTransformSkip
             = Some ((numSig, coeff), Q')"
  shows "fst (invtransformNxN K IP Q' True residual stride coeff log2TrSize ttype bIntra
                useTransformSkip numSig) = residual
       \<and> length (fst (invtransformNxN K IP Q' True out stride coeff log2TrSize ttype bIntra
                useTransformSkip numSig)) = length out
       \<and> (\<forall>p<length out.
            fst (invtransformNxN K IP Q' True out stride coeff log2TrSize ttype bIntra
                   useTransformSkip numSig) ! p
              = (if \<exists>y<2 ^ log2TrSize. \<exists>x<2 ^ log2TrSize. p = y * stride + x
                 then residual ! p else out ! p))"
proof -
  let ?N = "2 ^ log2TrSize :: nat"
  have c: "coeff = snd (cvt16to32_cnt P ?N residual stride)"
    using assms by (simp add: transformNxN_def)
  have inv: "fst (invtransformNxN K IP Q' True r stride coeff log2TrSize ttype bIntra
                useTransformSkip numSig) = inv_bypass_copy ?N r stride coeff" for r
    by (simp add: invtransformNxN_def invtransform_core_def)
  have blk: "(p \<in> (\<Union>k\<in>set [0..<?N]. (\<lambda>j. k * stride + j) ` set [0..<?N]))
               \<longleftrightarrow> (\<exists>y<?N. \<exists>x<?N. p = y * stride + x)" for p
    unfolding set_upt UN_iff image_iff Bex_def atLeastLessThan_iff by blast
  show ?thesis
    unfolding inv
    using inv_bypass_copy_of_copy[OF c, of out] inv_bypass_copy_in_place[where N = ?N and residual = residual and stride = stride and P = P]
    by (simp only: blk c) simp
qed

theorem bypass_round_trip_witness:
  "cuTransquantBypass (ex_cu True False)
   \<and> transformNxN ex_K ex_D (ex_P []) (ex_Q False []) (ex_cu True False) [] 4 ex_residual 4 2
        TEXT_LUMA False
        = Some ((0, [3, 0, 0, 0, 0, - 2, 0, 0, 0, 0, 0, 0, 0, 0, 0, 0]), ex_Q False [])
   \<and> fst (invtransformNxN ex_K ex_IP (ex_Q False []) True ex_residual 4
             [3, 0, 0, 0, 0, - 2, 0, 0, 0, 0, 0, 0, 0, 0, 0, 0] 2 TEXT_LUMA True False 0) = ex_residual
   \<and> fst (invtransformNxN ex_K ex_IP (ex_Q False []) True (replicate 16 7) 4
             [3, 0, 0, 0, 0, - 2, 0, 0, 0, 0, 0, 0, 0, 0, 0, 0] 2 TEXT_LUMA True False 0) ! 5 = - 2"
proof -
  have c: "cuTransquantBypass (ex_cu True False)" by (simp add: ex_cu_def)
  have t: "transformNxN ex_K ex_D (ex_P []) (ex_Q False []) (ex_cu True False) [] 4 ex_residual 4 2
        TEXT_LUMA False
        = Some ((0, [3, 0, 0, 0, 0, - 2, 0, 0, 0, 0, 0, 0, 0, 0, 0, 0]), ex_Q False [])"
    by (simp add: transformNxN_def ex_cu_def ex_P_def cvt16to32_cnt_def ex_residual_def upt16)
  have e: "\<exists>y<2 ^ 2. \<exists>x<2 ^ 2. (5 :: nat) = y * 4 + x"
    by (intro exI[of _ 1] conjI) simp_all
  have r: "ex_residual ! 5 = - 2" by (simp add: ex_residual_def)
  from bypass_round_trip[OF c t, of ex_IP True "replicate 16 7"]
  have "fst (invtransformNxN ex_K ex_IP (ex_Q False []) True ex_residual 4
             [3, 0, 0, 0, 0, - 2, 0, 0, 0, 0, 0, 0, 0, 0, 0, 0] 2 TEXT_LUMA True False 0) = ex_residual"
   and "\<forall>p<length (replicate 16 7 :: 16 word list).
            fst (invtransformNxN ex_K ex_IP (ex_Q False []) True (replicate 16 7) 4
             [3, 0, 0, 0, 0, - 2, 0, 0, 0, 0, 0, 0, 0, 0, 0, 0] 2 TEXT_LUMA True False 0) ! p
              = (if \<exists>y<2 ^ 2. \<exists>x<2 ^ 2. p = y * 4 + x
                 then ex_residual ! p else replicate 16 7 ! p)"
    by blast+
  then show ?thesis using c t e r by simp
qed

section \<open>The DC fast path of invtransformNxN\<close>

lemma sum_list_first_only:
  fixes g :: "nat \<Rightarrow> int"
  assumes "0 < N" and "\<And>k. 0 < k \<Longrightarrow> k < N \<Longrightarrow> g k = 0"
  shows "sum_list (map g [0..<N]) = g 0"
proof -
  have "[0..<N] = 0 # [1..<N]" using assms(1) by (simp add: upt_rec)
  moreover have eq: "map g [1..<N] = map (\<lambda>_. 0) [1..<N]"
    using assms(2) by (intro map_cong) auto
  have "sum_list (map g [1..<N]) = 0" unfolding eq by (rule sum_list_0)
  ultimately show ?thesis by simp
qed

lemma block_index_bound:
  fixes N :: nat
  assumes "k < N" "j < N"
  shows "k * N + j < N * N"
proof -
  have "k * N + j < Suc k * N" using assms by simp
  also have "\<dots> \<le> N * N" using assms by (metis Suc_leI mult_le_mono1)
  finally show ?thesis .
qed

lemma idct_pass_length: "length (idct_pass T N s src) = N * N"
  by (simp add: idct_pass_def)

lemma idct_pass_first_row:
  assumes z: "\<And>k j. 0 < k \<Longrightarrow> k < N \<Longrightarrow> j < N \<Longrightarrow> src ! (k * N + j) = 0"
      and p: "p < N * N"
  shows "idct_pass T N s src ! p
           = Clip3 (- 32768) 32767 (asr (T 0 (p mod N) * src ! (p div N) + push_bit (s - 1) 1) s)"
proof -
  have N: "0 < N" using p by (cases N) simp_all
  have j: "p div N < N" using p by (simp add: less_mult_imp_div_less)
  have "sum_list (map (\<lambda>k. T k (p mod N) * src ! (k * N + p div N)) [0..<N])
          = T 0 (p mod N) * src ! (0 * N + p div N)"
    by (rule sum_list_first_only[OF N]) (simp add: z[OF _ _ j])
  then show ?thesis using p by (simp add: idct_pass_def Let_def)
qed

lemma asr_half_zero: "0 < s \<Longrightarrow> asr (push_bit (s - 1) 1) s = 0"
proof -
  assume "0 < s"
  then have "(2 :: int) ^ (s - 1) < 2 ^ s" by (simp add: power_strict_increasing_iff)
  then show ?thesis by (simp add: asr_def push_bit_eq_mult)
qed

lemma int_div_lower:
  fixes x d k :: int
  assumes "0 < d" "k * d \<le> x"
  shows "k \<le> x div d"
proof -
  have "(k * d) div d \<le> x div d" using assms by (intro zdiv_mono1)
  then show ?thesis using assms(1) by simp
qed

lemma int_div_upper:
  fixes x d k :: int
  assumes "0 < d" "x < k * d"
  shows "x div d < k"
proof (rule ccontr)
  assume "\<not> x div d < k"
  then have "k * d \<le> x div d * d" using assms(1) by (intro mult_right_mono) simp_all
  moreover have "x div d * d + x mod d = x" by simp
  moreover have "0 \<le> x mod d" using assms(1) by simp
  ultimately show False using assms(2) by linarith
qed

lemma asr_mono: "a \<le> b \<Longrightarrow> asr a s \<le> asr b s"
  by (simp add: asr_def zdiv_mono1)

text \<open>The two passes of the inverse transform on a block with the DC coefficient only.\<close>

lemma spec_idct_dc_block:
  assumes N: "0 < N" and T: "\<And>i. i < N \<Longrightarrow> T 0 i = 64"
      and a: "- 32768 \<le> a" "a \<le> 32767"
      and b0: "block ! 0 = a" and bz: "\<And>i. 0 < i \<Longrightarrow> i < N * N \<Longrightarrow> block ! i = 0"
      and s2: "6 \<le> s2" and p: "p < N * N"
  shows "idct_pass T N s2 (idct_pass T N 7 block) ! p
           = asr (asr (a * 64 + push_bit 6 1) 7 * 64 + push_bit (s2 - 1) 1) s2"
proof -
  let ?t = "asr (a * 64 + push_bit 6 1) 7"
  let ?coef = "idct_pass T N 7 block"
  have NN: "N \<le> N * N" using N by simp
  have t_range: "- 16384 \<le> ?t" "?t \<le> 16384"
  proof -
    have "asr (- 32768 * 64 + push_bit 6 1) 7 \<le> ?t" using a by (intro asr_mono) simp
    then show "- 16384 \<le> ?t" by (simp add: asr_def)
    have "?t \<le> asr (32767 * 64 + push_bit 6 1) 7" using a by (intro asr_mono) simp
    then show "?t \<le> 16384" by (simp add: asr_def)
  qed
  have first: "?coef ! q = (if q div N = 0 then ?t else 0)" if q: "q < N * N" for q
  proof -
    have j: "q div N < N" using q by (simp add: less_mult_imp_div_less)
    have i: "q mod N < N" using N by simp
    have z: "\<And>k j. 0 < k \<Longrightarrow> k < N \<Longrightarrow> j < N \<Longrightarrow> block ! (k * N + j) = 0"
      using bz block_index_bound by simp
    have "?coef ! q = Clip3 (- 32768) 32767 (asr (64 * block ! (q div N) + push_bit 6 1) 7)"
      using idct_pass_first_row[of N block q T 7, OF z q] T[OF i] by simp
    also have "\<dots> = (if q div N = 0 then ?t else 0)"
    proof (cases "q div N = 0")
      case True
      then show ?thesis using b0 t_range by (simp add: Clip3_def mult.commute)
    next
      case False
      then have "block ! (q div N) = 0" using bz[of "q div N"] j NN by simp
      then show ?thesis using False asr_half_zero[of 7] by (simp add: Clip3_def)
    qed
    finally show ?thesis .
  qed
  have j: "p div N < N" using p by (simp add: less_mult_imp_div_less)
  have i: "p mod N < N" using N by simp
  have z2: "?coef ! (k * N + j) = 0" if "0 < k" "k < N" "j < N" for k j
  proof -
    have "(k * N + j) div N = k" using that by simp
    then show ?thesis using first[OF block_index_bound[OF that(2,3)]] that(1) by simp
  qed
  have c0: "?coef ! (p div N) = ?t"
  proof -
    have "p div N < N * N" using j NN by linarith
    moreover have "(p div N) div N = 0" using j by simp
    ultimately show ?thesis using first by simp
  qed
  let ?v = "asr (?t * 64 + push_bit (s2 - 1) 1) s2"
  have v_range: "- 32768 \<le> ?v" "?v \<le> 32767"
  proof -
    have s: "(2 :: int) ^ 6 \<le> 2 ^ s2" using s2 by (intro power_increasing) simp_all
    have h: "(2 :: int) ^ (s2 - 1) * 2 = 2 ^ s2" using s2 by (cases s2) simp_all
    have up: "?t * 64 + 2 ^ (s2 - 1) < 32768 * 2 ^ s2" using t_range s h by simp
    have lo: "- 32768 * 2 ^ s2 \<le> ?t * 64 + 2 ^ (s2 - 1)" using t_range s h by simp
    have "(?t * 64 + 2 ^ (s2 - 1)) div 2 ^ s2 < 32768"
      using up by (intro int_div_upper) simp_all
    then show "?v \<le> 32767" by (simp add: asr_def push_bit_eq_mult)
    have "- 32768 \<le> (?t * 64 + 2 ^ (s2 - 1)) div 2 ^ s2"
      using lo by (intro int_div_lower) simp_all
    then show "- 32768 \<le> ?v" by (simp add: asr_def push_bit_eq_mult)
  qed
  have "idct_pass T N s2 ?coef ! p
          = Clip3 (- 32768) 32767 (asr (64 * ?coef ! (p div N) + push_bit (s2 - 1) 1) s2)"
    using idct_pass_first_row[of N ?coef p T s2, OF z2 p] T[OF i] by simp
  also have "\<dots> = ?v" using v_range by (simp add: c0 Clip3_def mult.commute)
  finally show ?thesis .
qed

lemma sint_word_of_int_16:
  "- 32768 \<le> a \<Longrightarrow> a \<le> 32767 \<Longrightarrow> sint (word_of_int a :: 16 word) = a"
  by (simp add: signed_take_bit_int_eq_self sint_sbintrunc')

lemma fold_cong_pointwise:
  "(\<And>x a. x \<in> set xs \<Longrightarrow> f x a = g x a) \<Longrightarrow> fold f xs s = fold g xs s"
  by (induction xs arbitrary: s) simp_all

lemma fold2_update_cong:
  assumes "\<And>y x. y < N \<Longrightarrow> x < N \<Longrightarrow> u y x = v"
  shows "fold (\<lambda>y d. fold (\<lambda>x d'. d'[y * stride + x := u y x]) [0..<N] d) [0..<N] dst
       = fold (\<lambda>y d. fold (\<lambda>x d'. d'[y * stride + x := v]) [0..<N] d) [0..<N] dst"
proof (rule fold_cong_pointwise)
  fix y d assume "y \<in> set [0..<N]"
  then have y: "y < N" by simp
  show "fold (\<lambda>x d'. d'[y * stride + x := u y x]) [0..<N] d
      = fold (\<lambda>x d'. d'[y * stride + x := v]) [0..<N] d"
    by (rule fold_cong_pointwise) (simp add: assms[OF y])
qed

lemma spec_idct_dc:
  assumes N: "0 < N" and T: "\<forall>i<N. T 0 i = 64"
      and depth: "X265_DEPTH K \<le> 14"
      and len: "N * N \<le> length src"
      and a: "- 32768 \<le> src ! 0" "src ! 0 \<le> 32767"
      and z: "\<forall>i. 0 < i \<and> i < N * N \<longrightarrow> src ! i = 0"
  shows "spec_idct T K N src dst stride = blockfill_s N dst stride (word_of_int (dc_val K (src ! 0)))"
proof -
  let ?block = "map (\<lambda>x. sint (word_of_int x :: 16 word)) (take (N * N) src)"
  let ?s2 = "nat (12 - (X265_DEPTH K - 8))"
  let ?out = "idct_pass T N ?s2 (idct_pass T N 7 ?block)"
  have NN: "0 < N * N" using N by simp
  have b0: "?block ! 0 = src ! 0" using NN len a by (simp add: sint_word_of_int_16)
  have bz: "?block ! i = 0" if "0 < i" "i < N * N" for i
    using that len z by simp
  have s2: "6 \<le> ?s2" using depth by simp
  have out: "?out ! p = dc_val K (src ! 0)" if "p < N * N" for p
    using spec_idct_dc_block[of N T "src ! 0" ?block ?s2 p, OF N _ a b0 bz s2 that] T
    by (simp add: dc_val_def Let_def)
  have "fold (\<lambda>y d. fold (\<lambda>x d'. d'[y * stride + x := word_of_int (?out ! (y * N + x))]) [0..<N] d)
           [0..<N] dst
      = fold (\<lambda>y d. fold (\<lambda>x d'. d'[y * stride + x := word_of_int (dc_val K (src ! 0))]) [0..<N] d)
           [0..<N] dst"
    by (rule fold2_update_cong) (simp only: out[OF block_index_bound])
  then show ?thesis
    by (simp only: spec_idct_def blockfill_s_def Let_def)
qed

text \<open>
  Claim C6, as amended. For a block that is neither transquant-bypass nor transform-skip,
  with \<open>numSig = 1\<close>, a non-zero level at position 0 and no DST, \<^verbatim>\<open>invtransformNxN\<close> takes the
  DC fast path: it computes \<open>dc_val = (((resi[0] * 64 + 64) >> 7) * 64 + add) >> shift2\<close> from
  the dequantized DC coefficient and fills every sample of the residual block with it; and
  this is the output of the full inverse pipeline, the two-pass inverse transform of the
  spec applied to the dequantized block, when that block has its DC coefficient only, a
  16-bit value. \<open>T\<close> is the transform matrix, whose first row is constant \<open>64\<close>.
\<close>

theorem invtransformNxN_dc_fast_path:
  assumes "\<not> transQuantBypass" and "\<not> useTransformSkip"
      and "numSig = 1" and "coeff ! 0 \<noteq> 0"
      and "\<not> (log2TrSize - 2 = 0 \<and> ttype = TEXT_LUMA \<and> bIntra)"
      and "p_idct P (IDCT_4x4 K + int (log2TrSize - 2)) = spec_idct T K (2 ^ log2TrSize)"
      and "\<forall>i<2 ^ log2TrSize. T 0 i = 64"
      and "X265_DEPTH K \<le> 14"
      and "resi = inv_dequant K P Q coeff log2TrSize ttype bIntra"
      and "2 ^ log2TrSize * 2 ^ log2TrSize \<le> length resi"
      and "- 32768 \<le> resi ! 0" and "resi ! 0 \<le> 32767"
      and "\<forall>i. 0 < i \<and> i < 2 ^ log2TrSize * 2 ^ log2TrSize \<longrightarrow> resi ! i = 0"
  shows "invtransformNxN K P Q transQuantBypass residual stride coeff log2TrSize ttype bIntra
           useTransformSkip numSig
         = (blockfill_s (2 ^ log2TrSize) residual stride (word_of_int (dc_val K (resi ! 0))),
            Q\<lparr> m_resiDctCoeff := resi \<rparr>)
       \<and> dc_val K (resi ! 0)
         = asr (asr (resi ! 0 * 64 + 64) 7 * 64 + 2 ^ (nat (12 - (X265_DEPTH K - 8)) - 1))
             (nat (12 - (X265_DEPTH K - 8)))
       \<and> invtransformNxN K P Q transQuantBypass residual stride coeff log2TrSize ttype bIntra
           useTransformSkip numSig
         = invtransform_core False K P Q transQuantBypass residual stride coeff log2TrSize ttype bIntra
             useTransformSkip numSig"
proof -
  consider (a) "log2TrSize - 2 \<noteq> 0" | (b) "ttype \<noteq> TEXT_LUMA" | (c) "\<not> bIntra"
    using assms(5) by argo
  then have both: "invtransformNxN K P Q transQuantBypass residual stride coeff log2TrSize ttype bIntra
           useTransformSkip numSig
         = (blockfill_s (2 ^ log2TrSize) residual stride (word_of_int (dc_val K (resi ! 0))),
            Q\<lparr> m_resiDctCoeff := resi \<rparr>)
       \<and> invtransform_core False K P Q transQuantBypass residual stride coeff log2TrSize ttype bIntra
             useTransformSkip numSig
         = (spec_idct T K (2 ^ log2TrSize) resi residual stride, Q\<lparr> m_resiDctCoeff := resi \<rparr>)"
  proof cases
    case a
    then show ?thesis
      using assms(1-4,6,9) by (simp add: invtransformNxN_def invtransform_core_def Let_def)
  next
    case b
    then show ?thesis
      using assms(1-4,6,9) by (simp add: invtransformNxN_def invtransform_core_def Let_def)
  next
    case c
    then show ?thesis
      using assms(1-4,6,9) by (simp add: invtransformNxN_def invtransform_core_def Let_def)
  qed
  note fast = both[THEN conjunct1] and full = both[THEN conjunct2]
  have eq: "spec_idct T K (2 ^ log2TrSize) resi residual stride
          = blockfill_s (2 ^ log2TrSize) residual stride (word_of_int (dc_val K (resi ! 0)))"
    using assms(7,8,10,11,12,13)
    by (intro spec_idct_dc[where N = "2 ^ log2TrSize" and T = T and K = K and src = resi]) simp_all
  have dc: "dc_val K (resi ! 0)
         = asr (asr (resi ! 0 * 64 + 64) 7 * 64 + 2 ^ (nat (12 - (X265_DEPTH K - 8)) - 1))
             (nat (12 - (X265_DEPTH K - 8)))"
    by (simp add: dc_val_def Let_def)
  show ?thesis using fast full eq dc by (simp only:)
qed

lemma upt4: "[0..<4] = [0, 1, 2, 3 :: nat]"
  by (simp add: upt_rec)

text \<open>
  Claim C6 as stated fails: a transquant-bypass block with \<open>numSig = 1\<close> and its only non-zero
  level \<open>100\<close> at position 0 (not a DST block) is copied, not filled: the samples of the
  output differ, while the DC fast path would fill the block with \<open>1\<close>.
\<close>

theorem invtransformNxN_dc_counterexample:
  "count_nonzero ex_dc_coeff = 1 \<and> ex_dc_coeff ! 0 \<noteq> 0
   \<and> fst (invtransformNxN ex_K ex_IP (ex_Q False []) True (replicate 16 0) 4 ex_dc_coeff 2
            TEXT_CHROMA_U False False 1)
       = [100, 0, 0, 0, 0, 0, 0, 0, 0, 0, 0, 0, 0, 0, 0, 0]
   \<and> dc_val ex_K 100 = 1
   \<and> blockfill_s 4 (replicate 16 0) 4 (word_of_int (dc_val ex_K 100))
       = [1, 1, 1, 1, 1, 1, 1, 1, 1, 1, 1, 1, 1, 1, 1, 1]
   \<and> fst (invtransformNxN ex_K ex_IP (ex_Q False []) True (replicate 16 0) 4 ex_dc_coeff 2
            TEXT_CHROMA_U False False 1)
       \<noteq> blockfill_s 4 (replicate 16 0) 4 (word_of_int (dc_val ex_K 100))"
proof -
  have dc: "dc_val ex_K 100 = 1" by (simp add: dc_val_def ex_K_def Let_def asr_def)
  have fill: "blockfill_s 4 (replicate 16 0) 4 1 = [1, 1, 1, 1, 1, 1, 1, 1, 1, 1, 1, 1, 1, 1, 1, 1 :: 16 word]"
    by (simp add: blockfill_s_def upt4 numeral_eq_Suc)
  have copy: "fst (invtransformNxN ex_K ex_IP (ex_Q False []) True (replicate 16 0) 4 ex_dc_coeff 2
            TEXT_CHROMA_U False False 1)
       = [100, 0, 0, 0, 0, 0, 0, 0, 0, 0, 0, 0, 0, 0, 0, 0]"
    by (simp add: invtransformNxN_def invtransform_core_def inv_bypass_copy_def upt4 ex_dc_coeff_def
          numeral_eq_Suc)
  have cnt: "count_nonzero ex_dc_coeff = 1 \<and> ex_dc_coeff ! 0 \<noteq> 0"
    by (simp add: count_nonzero_def ex_dc_coeff_def)
  show ?thesis using cnt by (simp add: dc fill copy)
qed


theorem invtransformNxN_dc_fast_path_witness:
  "invtransformNxN ex_K ex_IP (ex_Q False []) False (replicate 16 0) 4 ex_dc_coeff 2 TEXT_CHROMA_U
       False False 1
     = ([1, 1, 1, 1, 1, 1, 1, 1, 1, 1, 1, 1, 1, 1, 1, 1],
        (ex_Q False [])\<lparr> m_resiDctCoeff := ex_dc_coeff \<rparr>)
   \<and> invtransformNxN ex_K ex_IP (ex_Q False []) False (replicate 16 0) 4 ex_dc_coeff 2 TEXT_CHROMA_U
       False False 1
     = invtransform_core False ex_K ex_IP (ex_Q False []) False (replicate 16 0) 4 ex_dc_coeff 2
         TEXT_CHROMA_U False False 1"
proof -
  have h5: "\<not> ((2 :: nat) - 2 = 0 \<and> TEXT_CHROMA_U = TEXT_LUMA \<and> False)" by simp
  have h6: "p_idct ex_IP (IDCT_4x4 ex_K + int ((2 :: nat) - 2)) = spec_idct ex_T4 ex_K (2 ^ 2)"
    by (simp add: ex_IP_def)
  have h7: "\<forall>i<2 ^ 2. ex_T4 0 i = 64"
    by (auto simp: ex_T4_def nth_Cons')
  have h8: "X265_DEPTH ex_K \<le> 14" by (simp add: ex_K_def)
  have h9: "ex_dc_coeff = inv_dequant ex_K ex_IP (ex_Q False []) ex_dc_coeff 2 TEXT_CHROMA_U False"
    by (simp add: inv_dequant_def ex_IP_def ex_Q_def Let_def)
  have h10: "2 ^ 2 * 2 ^ 2 \<le> length ex_dc_coeff" by (simp add: ex_dc_coeff_def)
  have h11: "- 32768 \<le> ex_dc_coeff ! 0" "ex_dc_coeff ! 0 \<le> 32767" by (simp_all add: ex_dc_coeff_def)
  have h13: "\<forall>i. 0 < i \<and> i < 2 ^ 2 * 2 ^ 2 \<longrightarrow> ex_dc_coeff ! i = 0"
    by (auto simp: ex_dc_coeff_def nth_Cons')
  have c0: "ex_dc_coeff ! 0 \<noteq> 0" by (simp add: ex_dc_coeff_def)
  have dc: "dc_val ex_K (ex_dc_coeff ! 0) = 1"
    by (simp add: dc_val_def ex_K_def Let_def asr_def ex_dc_coeff_def)
  have fill: "blockfill_s (2 ^ 2) (replicate 16 0) 4 (word_of_int 1)
                = [1, 1, 1, 1, 1, 1, 1, 1, 1, 1, 1, 1, 1, 1, 1, 1 :: 16 word]"
    by (simp add: blockfill_s_def upt4 numeral_eq_Suc)
  note th = invtransformNxN_dc_fast_path[of False False 1 ex_dc_coeff 2 TEXT_CHROMA_U False ex_IP ex_K
            ex_T4 ex_dc_coeff "ex_Q False []" "replicate 16 0" 4,
            OF _ _ refl c0 h5 h6 h7 h8 h9 h10 h11 h13]
  have A: "invtransformNxN ex_K ex_IP (ex_Q False []) False (replicate 16 0) 4 ex_dc_coeff 2 TEXT_CHROMA_U
       False False 1
     = ([1, 1, 1, 1, 1, 1, 1, 1, 1, 1, 1, 1, 1, 1, 1, 1],
        (ex_Q False [])\<lparr> m_resiDctCoeff := ex_dc_coeff \<rparr>)"
    using th[THEN conjunct1] by (simp only: dc fill not_False_eq_True)
  have C: "invtransformNxN ex_K ex_IP (ex_Q False []) False (replicate 16 0) 4 ex_dc_coeff 2 TEXT_CHROMA_U
       False False 1
     = invtransform_core False ex_K ex_IP (ex_Q False []) False (replicate 16 0) 4 ex_dc_coeff 2
         TEXT_CHROMA_U False False 1"
    using th[THEN conjunct2, THEN conjunct2] by (simp only: not_False_eq_True)
  show ?thesis by (intro conjI A C)
qed

section \<open>rdoQuant: the last position, the recount and the sign-hiding pass\<close>

lemma rdoq_last_coeff_cases:
  "bestLastIdx (rdoq_last_coeff E st cg n s) = bestLastIdx s
   \<or> (bestLastIdx (rdoq_last_coeff E st cg n s) = int (16 * cg + n) + 1
      \<and> int (16 * cg + n) \<le> lastScanPos st
      \<and> dstCoeff st ! (scan (e_cp E) ! (16 * cg + n)) \<noteq> 0)"
  by (simp add: rdoq_last_coeff_def Let_def MLS_CG_SIZE_def mult.commute[of cg 16])

lemma rdoq_last_coeff_inv:
  assumes "last_inv (scan (e_cp E)) st s"
  shows "last_inv (scan (e_cp E)) st (rdoq_last_coeff E st cg n s)"
proof -
  from rdoq_last_coeff_cases[of E st cg n s]
  show ?thesis
  proof
    assume "bestLastIdx (rdoq_last_coeff E st cg n s) = bestLastIdx s"
    then show ?thesis using assms by (simp add: last_inv_def)
  next
    assume a: "bestLastIdx (rdoq_last_coeff E st cg n s) = int (16 * cg + n) + 1
      \<and> int (16 * cg + n) \<le> lastScanPos st
      \<and> dstCoeff st ! (scan (e_cp E) ! (16 * cg + n)) \<noteq> 0"
    then have "nat (bestLastIdx (rdoq_last_coeff E st cg n s) - 1) = 16 * cg + n" by simp
    then show ?thesis using a unfolding last_inv_def by (simp only:) simp
  qed
qed

lemma rdoq_last_coeff_loop_inv:
  "last_inv (scan (e_cp E)) st s
     \<Longrightarrow> last_inv (scan (e_cp E)) st (for_down (rdoq_last_coeff E st cg) n s)"
  by (induction n arbitrary: s) (simp_all add: rdoq_last_coeff_inv)

lemma last_inv_cong: "bestLastIdx s' = bestLastIdx s \<Longrightarrow> last_inv scn st s' = last_inv scn st s"
  by (simp add: last_inv_def)

lemma rdoq_last_cg_inv:
  assumes "last_inv (scan (e_cp E)) st s"
  shows "last_inv (scan (e_cp E)) st (rdoq_last_cg E st cg s)"
proof -
  have i: "last_inv (scan (e_cp E)) st (s\<lparr> l_totalRdCost := x \<rparr>)" for x
    using assms by (simp add: last_inv_def)
  show ?thesis
    unfolding rdoq_last_cg_def Let_def
    using assms i rdoq_last_coeff_loop_inv[OF i] by (simp add: MLS_CG_SIZE_def)
qed

lemma rdoq_last_cg_loop_inv:
  "last_inv (scan (e_cp E)) st s
     \<Longrightarrow> last_inv (scan (e_cp E)) st (for_down (rdoq_last_cg E st) n s)"
  by (induction n arbitrary: s) (simp_all add: rdoq_last_cg_inv)

lemma rdoq_last_search_inv:
  "last_inv (scan (e_cp E)) st (rdoq_last_search E rootCbf ctx st)"
  unfolding rdoq_last_search_def Let_def
  by (rule rdoq_last_cg_loop_inv) (simp add: last_inv_def)

text \<open>The sign of the DCT coefficient re-applied to a level.\<close>

lemma xor_mask_sign:
  assumes "- (2 ^ 31) \<le> r" "r < 2 ^ 31"
  shows "(level XOR asr r 31) - asr r 31 = (if r < 0 then - level else (level :: int))"
proof (cases "r < 0")
  case True
  have "r div 2 ^ 31 = - 1"
  proof -
    have "- 1 \<le> r div 2 ^ 31" using assms(1) by (intro int_div_lower) simp_all
    moreover have "r div 2 ^ 31 < 0" using True by (intro int_div_upper) simp_all
    ultimately show ?thesis by simp
  qed
  then show ?thesis using True by (simp add: asr_def not_int_def)
next
  case False
  then have "r div 2 ^ 31 = 0" using assms(2) by simp
  then show ?thesis using False by (simp add: asr_def)
qed

lemma rdoq_recount_fold:
  assumes ok: "scan_ok scn N" and len: "length dst = N"
      and rng: "\<forall>i<N. - (2 ^ 31) \<le> resi ! i \<and> resi ! i < 2 ^ 31"
  shows "B \<le> N \<Longrightarrow>
     (let r = fold (rdoq_recount_step resi scn) [0..<B] (0, dst)
      in length (snd r) = N
       \<and> (\<forall>q<N. snd r ! (scn ! q)
             = (if q < B then signed_level (resi ! (scn ! q)) (dst ! (scn ! q)) else dst ! (scn ! q)))
       \<and> fst r = u32 (int (length (filter (\<lambda>q. dst ! (scn ! q) \<noteq> 0) [0..<B]))))"
proof (induction B)
  case 0
  then show ?case by (simp add: len u32_def)
next
  case (Suc B)
  define r where "r = fold (rdoq_recount_step resi scn) [0..<B] (0, dst)"
  define r' where "r' = rdoq_recount_step resi scn B r"
  have B: "B < N" using Suc.prems by simp
  have ih: "length (snd r) = N"
    "\<And>q. q < N \<Longrightarrow> snd r ! (scn ! q)
             = (if q < B then signed_level (resi ! (scn ! q)) (dst ! (scn ! q)) else dst ! (scn ! q))"
    "fst r = u32 (int (length (filter (\<lambda>q. dst ! (scn ! q) \<noteq> 0) [0..<B])))"
    using Suc.IH B unfolding r_def by (simp_all add: Let_def)
  have bp: "scn ! B < N" by (rule scan_ok_lt[OF ok B])
  have lv: "snd r ! (scn ! B) = dst ! (scn ! B)" using ih(2)[OF B] by simp
  have fr: "fold (rdoq_recount_step resi scn) [0..<Suc B] (0, dst) = r'"
    by (simp add: r_def r'_def)
  have sg: "(dst ! (scn ! B) XOR asr (resi ! (scn ! B)) 31) - asr (resi ! (scn ! B)) 31
              = signed_level (resi ! (scn ! B)) (dst ! (scn ! B))"
    using rng bp by (simp add: xor_mask_sign signed_level_def)
  have snd': "snd r' = (snd r)[scn ! B := signed_level (resi ! (scn ! B)) (dst ! (scn ! B))]"
    unfolding r'_def by (simp add: rdoq_recount_step_def Let_def lv sg)
  have fst': "fst r' = u32 (fst r + (if dst ! (scn ! B) \<noteq> 0 then 1 else 0))"
    unfolding r'_def by (simp add: rdoq_recount_step_def Let_def lv)
  have neq: "\<And>q. q < N \<Longrightarrow> q \<noteq> B \<Longrightarrow> scn ! B \<noteq> scn ! q"
    using scan_ok_neq[OF ok B] by fastforce
  have A: "length (snd r') = N" using ih(1) by (simp only: snd' length_list_update)
  have Bq: "snd r' ! (scn ! q)
             = (if q < Suc B then signed_level (resi ! (scn ! q)) (dst ! (scn ! q)) else dst ! (scn ! q))"
    if q: "q < N" for q
  proof (cases "q = B")
    case True
    then show ?thesis using bp ih(1) by (simp add: snd')
  next
    case False
    then have "snd r' ! (scn ! q) = snd r ! (scn ! q)"
      using neq[OF q] by (simp add: snd')
    then show ?thesis using ih(2)[OF q] False by auto
  qed
  have C: "fst r' = u32 (int (length (filter (\<lambda>q. dst ! (scn ! q) \<noteq> 0) [0..<Suc B])))"
    unfolding fst' ih(3) by (simp add: u32_def mod_simps)
  show ?case unfolding Let_def fr using A Bq C by blast
qed

lemma rdoq_clean_fold:
  assumes ok: "scan_ok scn N" and len: "length dst = N"
  shows "b \<le> e \<Longrightarrow> e \<le> N \<Longrightarrow>
     length (fold (\<lambda>pos d. d[scn ! pos := 0]) [b..<e] dst) = N
     \<and> (\<forall>q<N. fold (\<lambda>pos d. d[scn ! pos := 0]) [b..<e] dst ! (scn ! q)
                = (if b \<le> q \<and> q < e then 0 else dst ! (scn ! q)))"
proof (induction e)
  case 0
  then show ?case by (simp add: len)
next
  case (Suc e)
  show ?case
  proof (cases "b = Suc e")
    case True
    then show ?thesis by (auto simp: len)
  next
    case False
    then have be: "b \<le> e" and e: "e < N" using Suc.prems by simp_all
    let ?d = "fold (\<lambda>pos d. d[scn ! pos := 0]) [b..<e] dst"
    have ih: "length ?d = N"
       "\<And>q. q < N \<Longrightarrow> ?d ! (scn ! q) = (if b \<le> q \<and> q < e then 0 else dst ! (scn ! q))"
      using Suc.IH[OF be] e by simp_all
    have d': "fold (\<lambda>pos d. d[scn ! pos := 0]) [b..<Suc e] dst = ?d[scn ! e := 0]"
      using be by simp
    have bp: "scn ! e < N" by (rule scan_ok_lt[OF ok e])
    have neq: "\<And>q. q < N \<Longrightarrow> q \<noteq> e \<Longrightarrow> scn ! e \<noteq> scn ! q"
      using scan_ok_neq[OF ok e] by fastforce
    show ?thesis
      unfolding d'
    proof (intro conjI allI impI)
      show "length (?d[scn ! e := 0]) = N" using ih(1) by simp
    next
      fix q assume q: "q < N"
      show "?d[scn ! e := 0] ! (scn ! q) = (if b \<le> q \<and> q < Suc e then 0 else dst ! (scn ! q))"
      proof (cases "q = e")
        case True
        then show ?thesis using bp ih(1) be by simp
      next
        case ne: False
        then have "?d[scn ! e := 0] ! (scn ! q) = ?d ! (scn ! q)" using neq[OF q] by simp
        then show ?thesis using ih(2)[OF q] ne by auto
      qed
    qed
  qed
qed

lemma scan_ok_set: "scan_ok scn N \<Longrightarrow> set scn = {0..<N}"
proof -
  assume ok: "scan_ok scn N"
  have sub: "set scn \<subseteq> {0..<N}" using ok by (auto simp: scan_ok_def)
  have "card (set scn) = N" using ok by (simp add: scan_ok_def distinct_card)
  then have "card (set scn) = card {0..<N}" by simp
  with sub show ?thesis by (intro card_subset_eq) simp_all
qed

lemma scan_ok_mset: "scan_ok scn N \<Longrightarrow> mset scn = mset [0..<N]"
proof -
  assume ok: "scan_ok scn N"
  have "distinct scn" using ok by (simp add: scan_ok_def)
  moreover have "distinct [0..<N]" by simp
  moreover have "set scn = set [0..<N]" using scan_ok_set[OF ok] by simp
  ultimately show ?thesis by (simp only: set_eq_iff_mset_eq_distinct)
qed

lemma count_nonzero_mset: "count_nonzero xs = int (size (filter_mset (\<lambda>x. x \<noteq> 0) (mset xs)))"
  by (simp add: count_nonzero_def flip: mset_filter)

lemma count_nonzero_scan:
  assumes ok: "scan_ok scn N" and len: "length xs = N"
  shows "count_nonzero (map (\<lambda>q. xs ! (scn ! q)) [0..<N]) = count_nonzero xs"
proof -
  have lscn: "length scn = N" using ok by (simp add: scan_ok_def)
  have "map (\<lambda>q. xs ! (scn ! q)) [0..<N] = map (nth xs) (map (nth scn) [0..<length scn])"
    by (simp add: lscn)
  also have "\<dots> = map (nth xs) scn" by (simp only: map_nth)
  finally have e: "map (\<lambda>q. xs ! (scn ! q)) [0..<N] = map (nth xs) scn" .
  have "mset (map (nth xs) scn) = image_mset (nth xs) (mset scn)" by simp
  also have "\<dots> = image_mset (nth xs) (mset [0..<N])" by (simp only: scan_ok_mset[OF ok])
  also have "\<dots> = mset (map (nth xs) [0..<length xs])" by (simp add: len)
  also have "\<dots> = mset xs" by (simp only: map_nth)
  finally show ?thesis by (simp only: count_nonzero_mset e)
qed

lemma signed_level_zero_iff: "signed_level r l = 0 \<longleftrightarrow> l = 0"
  by (simp add: signed_level_def)

lemma rdoq_out_count:
  assumes ok: "scan_ok scn N" and out: "rdoq_out scn resi a B dst" and B: "B \<le> N"
  shows "count_nonzero dst = int (length (filter (\<lambda>q. a ! (scn ! q) \<noteq> 0) [0..<B]))"
proof -
  have lscn: "length scn = N" using ok by (simp add: scan_ok_def)
  have len: "length dst = N" using out lscn by (simp add: rdoq_out_def)
  have nz: "\<And>q. q < N \<Longrightarrow> (dst ! (scn ! q) \<noteq> 0) = (q < B \<and> a ! (scn ! q) \<noteq> 0)"
    using out lscn by (simp add: rdoq_out_def signed_level_zero_iff)
  have "count_nonzero dst = count_nonzero (map (\<lambda>q. dst ! (scn ! q)) [0..<N])"
    by (simp only: count_nonzero_scan[OF ok len])
  also have "\<dots> = int (length (filter (\<lambda>q. dst ! (scn ! q) \<noteq> 0) [0..<N]))"
    by (simp add: count_nonzero_def filter_map comp_def)
  also have "filter (\<lambda>q. dst ! (scn ! q) \<noteq> 0) [0..<N]
           = filter (\<lambda>q. q < B \<and> a ! (scn ! q) \<noteq> 0) [0..<N]"
    by (rule filter_cong[OF refl]) (simp add: nz)
  also have "[0..<N] = [0..<B] @ [B..<N]"
    using upt_add_eq_append[of 0 B "N - B"] B by simp
  also have "filter (\<lambda>q. q < B \<and> a ! (scn ! q) \<noteq> 0) ([0..<B] @ [B..<N])
           = filter (\<lambda>q. a ! (scn ! q) \<noteq> 0) [0..<B]"
  proof -
    have "filter (\<lambda>q. q < B \<and> a ! (scn ! q) \<noteq> 0) [B..<N] = []"
      by (simp add: filter_empty_conv)
    moreover have "filter (\<lambda>q. q < B \<and> a ! (scn ! q) \<noteq> 0) [0..<B] = filter (\<lambda>q. a ! (scn ! q) \<noteq> 0) [0..<B]"
      by (rule filter_cong[OF refl]) simp
    ultimately show ?thesis by simp
  qed
  finally show ?thesis .
qed

lemma rdoq_tail:
  assumes ok: "scan_ok scn N" and len: "length d0 = N"
      and inv: "rdoq_inv scn d0 0 st"
      and rng: "\<forall>i<N. - (2 ^ 31) \<le> resi ! i \<and> resi ! i < 2 ^ 31"
      and L: "0 \<le> lastScanPos st"
      and li: "b = 0 \<or> (0 < b \<and> b \<le> lastScanPos st + 1 \<and> dstCoeff st ! (scn ! nat (b - 1)) \<noteq> 0)"
      and N32: "N < 2 ^ 32"
  shows "rdoq_out scn resi (dstCoeff st) (nat b)
           (rdoq_clean scn b (lastScanPos st) (snd (rdoq_recount resi scn b (dstCoeff st))))"
    and "fst (rdoq_recount resi scn b (dstCoeff st))
           = count_nonzero (rdoq_clean scn b (lastScanPos st) (snd (rdoq_recount resi scn b (dstCoeff st))))"
    and "nat b \<le> N"
proof -
  let ?a = "dstCoeff st" and ?B = "nat b" and ?e = "nat (lastScanPos st + 1)"
  let ?rc = "rdoq_recount resi scn b ?a"
  let ?d2 = "rdoq_clean scn b (lastScanPos st) (snd ?rc)"
  have lscn: "length scn = N" using ok by (simp add: scan_ok_def)
  have la: "length ?a = N" using inv len by (simp add: rdoq_inv_def)
  have LN: "lastScanPos st < int N" using inv lscn by (simp add: rdoq_inv_def)
  have tail: "\<And>q. q < N \<Longrightarrow> lastScanPos st < int q \<Longrightarrow> ?a ! (scn ! q) = 0"
    using inv lscn by (simp add: rdoq_inv_def)
  have Be: "?B \<le> ?e" using li L by auto
  have eN: "?e \<le> N" using LN L by simp
  show BN: "?B \<le> N" using Be eN by simp
  from rdoq_recount_fold[OF ok la rng BN]
  have rc: "length (snd ?rc) = N"
    "\<And>q. q < N \<Longrightarrow> snd ?rc ! (scn ! q)
             = (if q < ?B then signed_level (resi ! (scn ! q)) (?a ! (scn ! q)) else ?a ! (scn ! q))"
    "fst ?rc = u32 (int (length (filter (\<lambda>q. ?a ! (scn ! q) \<noteq> 0) [0..<?B])))"
    unfolding rdoq_recount_def Let_def by blast+
  from rdoq_clean_fold[OF ok rc(1) Be eN]
  have cl: "length ?d2 = N"
    "\<And>q. q < N \<Longrightarrow> ?d2 ! (scn ! q) = (if ?B \<le> q \<and> q < ?e then 0 else snd ?rc ! (scn ! q))"
    unfolding rdoq_clean_def by blast+
  show out: "rdoq_out scn resi ?a ?B ?d2"
    unfolding rdoq_out_def lscn
  proof (intro conjI allI impI)
    show "length ?d2 = N" by (rule cl(1))
  next
    fix q assume q: "q < N"
    show "?d2 ! (scn ! q) = (if q < ?B then signed_level (resi ! (scn ! q)) (?a ! (scn ! q)) else 0)"
    proof (cases "q < ?B")
      case True
      then show ?thesis using cl(2)[OF q] rc(2)[OF q] by simp
    next
      case False
      show ?thesis
      proof (cases "q < ?e")
        case True
        then show ?thesis using False cl(2)[OF q] by simp
      next
        case ge: False
        then have "lastScanPos st < int q" using L by linarith
        then have "?a ! (scn ! q) = 0" by (rule tail[OF q])
        then show ?thesis using False ge cl(2)[OF q] rc(2)[OF q] by simp
      qed
    qed
  qed
  have "length (filter (\<lambda>q. ?a ! (scn ! q) \<noteq> 0) [0..<?B]) \<le> length [0..<?B]"
    by (rule length_filter_le)
  then have "length (filter (\<lambda>q. ?a ! (scn ! q) \<noteq> 0) [0..<?B]) < 2 ^ 32"
    using BN N32 by simp
  then have "int (length (filter (\<lambda>q. ?a ! (scn ! q) \<noteq> 0) [0..<?B])) < 2 ^ 32"
    by (metis of_nat_less_iff of_nat_numeral of_nat_power)
  then have "fst ?rc = int (length (filter (\<lambda>q. ?a ! (scn ! q) \<noteq> 0) [0..<?B]))"
    unfolding rc(3) by (intro u32_id) simp_all
  then show "fst ?rc = count_nonzero ?d2"
    using rdoq_out_count[OF ok out BN] by simp
qed

lemma rdoq_coeff_cgLastScanPos:
  "cgLastScanPos (rdoq_coeff E cg pat m n st) =
     (if dstCoeff st ! (scan (e_cp E) ! (16 * cg + n)) \<noteq> 0 \<and> lastScanPos st < 0
      then int cg else cgLastScanPos st)"
  by (simp add: rdoq_coeff_def Let_def MLS_CG_SIZE_def push_bit_eq_mult rdoq_coded_proj
        mult.commute[of cg 16])

lemma rdoq_coeff_loop_cgLast:
  "cg < M \<Longrightarrow> cgLastScanPos st < int M
     \<Longrightarrow> cgLastScanPos (for_down (rdoq_coeff E cg pat m) n st) < int M"
proof (induction n arbitrary: st)
  case 0
  then show ?case by simp
next
  case (Suc n)
  have "cgLastScanPos (rdoq_coeff E cg pat m n st) < int M"
    using Suc.prems by (simp add: rdoq_coeff_cgLastScanPos)
  with Suc.IH[OF Suc.prems(1), of "rdoq_coeff E cg pat m n st"] show ?case by simp
qed

lemma rdoq_cg_summary_cgLast:
  "cgLastScanPos (rdoq_cg_summary E cg x y m st) = cgLastScanPos st"
proof (cases "snd (rdoq_cg_summary_costs E cg x y m st)")
  case True
  then show ?thesis
    by (simp only: rdoq_cg_summary_unfold rdoq_uncode_loop_proj rdoq_cg_summary_costs_proj if_True)
next
  case False
  then show ?thesis
    by (simp only: rdoq_cg_summary_unfold rdoq_cg_summary_costs_proj if_False)
qed

lemma rdoq_cg_cgLast:
  assumes "cg < M" "cgLastScanPos st < int M"
  shows "cgLastScanPos (rdoq_cg E cg st) < int M"
proof -
  have "cgLastScanPos (st\<lparr> cgRdStats := g \<rparr>) < int M" for g using assms(2) by simp
  then have "cgLastScanPos (for_down (rdoq_coeff E cg pat m) 16 (st\<lparr> cgRdStats := g \<rparr>)) < int M"
    for pat m g
    by (rule rdoq_coeff_loop_cgLast[OF assms(1)])
  then show ?thesis
    unfolding rdoq_cg_def Let_def MLS_CG_SIZE_def rdoq_cg_summary_cgLast by simp
qed

lemma rdoq_main_loop_cgLast:
  "k \<le> M \<Longrightarrow> cgLastScanPos st < int M
     \<Longrightarrow> cgLastScanPos (for_down (rdoq_cg E) k st) < int M"
proof (induction k arbitrary: st)
  case 0
  then show ?case by simp
next
  case (Suc k)
  have "cgLastScanPos (rdoq_cg E k st) < int M"
    using Suc.prems by (intro rdoq_cg_cgLast) simp_all
  with Suc.IH[of "rdoq_cg E k st"] Suc.prems(1) show ?case by simp
qed

lemma sbh_select_keep:
  assumes "minPos s = - 1 \<or> G (minPos s) (finalChange s)"
      and "G (int blkPos) (curChange s)"
  shows "minPos (sbh_select blkPos s) = - 1
            \<or> G (minPos (sbh_select blkPos s)) (finalChange (sbh_select blkPos s))"
  using assms by (auto simp: sbh_select_def)

lemma rdoq_sbh_search_step_inv:
  assumes "n \<le> hi" and "minPos s = - 1 \<or> change_ok dst scn subPos hi (minPos s) (finalChange s)"
  shows "minPos (rdoq_sbh_search_step dst resi st scn rdFactor lastCG subPos lastNZ firstNZ sb n s) = - 1
       \<or> change_ok dst scn subPos hi
            (minPos (rdoq_sbh_search_step dst resi st scn rdFactor lastCG subPos lastNZ firstNZ sb n s))
            (finalChange (rdoq_sbh_search_step dst resi st scn rdFactor lastCG subPos lastNZ firstNZ sb n s))"
  unfolding rdoq_sbh_search_step_def Let_def
  by (rule sbh_select_keep) (use assms in \<open>auto simp: change_ok_def\<close>)

lemma rdoq_sbh_search_fold_inv:
  assumes "\<forall>n\<in>set ns. n \<le> hi"
      and "minPos s = - 1 \<or> change_ok dst scn subPos hi (minPos s) (finalChange s)"
  shows "minPos (fold (rdoq_sbh_search_step dst resi st scn rdFactor lastCG subPos lastNZ firstNZ sb) ns s) = - 1
       \<or> change_ok dst scn subPos hi
            (minPos (fold (rdoq_sbh_search_step dst resi st scn rdFactor lastCG subPos lastNZ firstNZ sb) ns s))
            (finalChange (fold (rdoq_sbh_search_step dst resi st scn rdFactor lastCG subPos lastNZ firstNZ sb) ns s))"
  using assms
proof (induction ns arbitrary: s)
  case Nil
  then show ?case by simp
next
  case (Cons n ns)
  have n: "n \<le> hi" and ns: "\<forall>n\<in>set ns. n \<le> hi" using Cons.prems(1) by simp_all
  show ?case
    using Cons.IH[OF ns rdoq_sbh_search_step_inv[OF n Cons.prems(2),
            where resi = resi and st = st and rdFactor = rdFactor and lastCG = lastCG
              and lastNZ = lastNZ and firstNZ = firstNZ and sb = sb]]
    by simp
qed

lemma rdoq_sbh_cg_cases:
  assumes run: "rdoq_sbh_cg resi st scn rdFactor cg (numSig, dst, lastCG) = Some (n1, d1, l1)"
  shows "(lastNZ_from dst scn (16 * cg) 16 < 0 \<and> d1 = dst \<and> n1 = numSig \<and> l1 = lastCG)
       \<or> (0 \<le> lastNZ_from dst scn (16 * cg) 16 \<and> \<not> l1
           \<and> ((d1 = dst \<and> n1 = numSig)
              \<or> (\<exists>p f. change_ok dst scn (16 * cg)
                          (if lastCG then nat (lastNZ_from dst scn (16 * cg) 16) else 15) p f
                      \<and> sbh_apply dst resi numSig p f = Some (n1, d1))))"
proof (cases "lastNZ_from dst scn (16 * cg) 16 < 0")
  case True
  with run show ?thesis by (simp add: rdoq_sbh_cg_def SCAN_SET_SIZE_def)
next
  case False
  define L where "L = nat (lastNZ_from dst scn (16 * cg) 16)"
  define F where "F = firstNZ_loop dst scn (16 * cg) L 0"
  define sb where "sb = (if dst ! (scn ! (16 * cg + F)) > 0 then 0 else 1 :: int)"
  define hi where "hi = (if lastCG then L else 15)"
  define s where "s = fold (rdoq_sbh_search_step dst resi st scn rdFactor lastCG (16 * cg) L F sb)
                        (rev [0..<Suc hi])
                        \<lparr> minCostInc = MAX_INT64, minPos = - 1, finalChange = 0,
                          curCost = MAX_INT64, curChange = 0 \<rparr>"
  define cond where "cond \<longleftrightarrow> int L - int F \<ge> SBH_THRESHOLD
                         \<and> sb \<noteq> u32 (rdoq_absSum dst scn (16 * cg) F L) AND 1"
  have unf: "rdoq_sbh_cg resi st scn rdFactor cg (numSig, dst, lastCG)
      = (if cond
         then (case sbh_apply dst resi numSig (minPos s) (finalChange s) of
                 None \<Rightarrow> None | Some (numSig', dst') \<Rightarrow> Some (numSig', dst', False))
         else Some (numSig, dst, False))"
    using False
    by (simp add: rdoq_sbh_cg_def SCAN_SET_SIZE_def Let_def L_def F_def sb_def hi_def s_def cond_def)
  show ?thesis
  proof (cases cond)
    case no: False
    then show ?thesis using run False unfolding unf by simp
  next
    case True
    then have ap: "sbh_apply dst resi numSig (minPos s) (finalChange s) = Some (n1, d1)" and l1: "\<not> l1"
      using run unfolding unf by (auto split: option.splits)
    have "\<forall>n\<in>set (rev [0..<Suc hi]). n \<le> hi" by auto
    then have "minPos s = - 1 \<or> change_ok dst scn (16 * cg) hi (minPos s) (finalChange s)"
      unfolding s_def by (rule rdoq_sbh_search_fold_inv) simp
    moreover have "minPos s \<noteq> - 1" using ap sbh_apply_None[of "minPos s"] by force
    ultimately have "change_ok dst scn (16 * cg) hi (minPos s) (finalChange s)" by simp
    then have co: "change_ok dst scn (16 * cg)
                     (if lastCG then nat (lastNZ_from dst scn (16 * cg) 16) else 15)
                     (minPos s) (finalChange s)"
      unfolding hi_def L_def .
    have ex: "\<exists>p f. change_ok dst scn (16 * cg)
                          (if lastCG then nat (lastNZ_from dst scn (16 * cg) 16) else 15) p f
                      \<and> sbh_apply dst resi numSig p f = Some (n1, d1)"
      by (rule exI[of _ "minPos s"], rule exI[of _ "finalChange s"]) (rule conjI[OF co ap])
    have nn: "0 \<le> lastNZ_from dst scn (16 * cg) 16" using False by simp
    show ?thesis by (intro disjI2 conjI nn l1 ex)
  qed
qed

lemma rdoq_sbh_cg_inv:
  assumes run: "rdoq_sbh_cg resi st scn rdFactor cg acc = Some acc'"
      and ok: "scan_ok scn N" and cgN: "16 * Suc cg \<le> N" and N32: "c \<Longrightarrow> N < 2 ^ 32"
      and pre: "sbh_state_ok scn resi c B (Suc cg) acc"
  shows "sbh_state_ok scn resi c B cg acc'"
proof -
  obtain numSig dst lastCG where acc: "acc = (numSig, dst, lastCG)" by (cases acc) auto
  obtain n1 d1 l1 where acc': "acc' = (n1, d1, l1)" by (cases acc') auto
  have lscn: "length scn = N" using ok by (simp add: scan_ok_def)
  have sm: "signs_match resi dst" and len: "length dst = N" and cnt: "c \<Longrightarrow> numSig = count_nonzero dst"
    and Z: "\<And>q. q < N \<Longrightarrow> B \<le> q \<Longrightarrow> dst ! (scn ! q) = 0"
    and lc: "\<not> lastCG \<Longrightarrow> 16 * Suc cg \<le> B"
    using pre unfolding sbh_state_ok_def acc lscn by auto
  have len32: "c \<Longrightarrow> length dst < 2 ^ 32" using len N32 by simp
  from rdoq_sbh_cg_cases[OF run[unfolded acc acc']]
  consider (empty) "lastNZ_from dst scn (16 * cg) 16 < 0" "d1 = dst" "n1 = numSig" "l1 = lastCG"
    | (same) "0 \<le> lastNZ_from dst scn (16 * cg) 16" "\<not> l1" "d1 = dst" "n1 = numSig"
    | (chg) p f where "0 \<le> lastNZ_from dst scn (16 * cg) 16" "\<not> l1"
        "change_ok dst scn (16 * cg) (if lastCG then nat (lastNZ_from dst scn (16 * cg) 16) else 15) p f"
        "sbh_apply dst resi numSig p f = Some (n1, d1)"
    by blast
  then show ?thesis
  proof cases
    case empty
    have "\<not> l1 \<Longrightarrow> 16 * cg \<le> B" using lc empty(4) by simp
    then show ?thesis
      unfolding sbh_state_ok_def acc' lscn using sm len cnt Z empty by auto
  next
    case same
    define L where "L = nat (lastNZ_from dst scn (16 * cg) 16)"
    from lastNZ_from_char[OF refl, of dst scn "16 * cg" 16] same(1)
    have L: "L < 16" "dst ! (scn ! (L + 16 * cg)) \<noteq> 0" unfolding L_def by auto
    have "L + 16 * cg < N" using L(1) cgN by simp
    then have "L + 16 * cg < B" using Z[of "L + 16 * cg"] L(2) by force
    then have "16 * cg \<le> B" by simp
    then show ?thesis
      unfolding sbh_state_ok_def acc' lscn using sm len cnt Z same by auto
  next
    case chg
    define L where "L = nat (lastNZ_from dst scn (16 * cg) 16)"
    from lastNZ_from_char[OF refl, of dst scn "16 * cg" 16] chg(1)
    have L: "L < 16" "dst ! (scn ! (L + 16 * cg)) \<noteq> 0" unfolding L_def by auto
    have LN: "L + 16 * cg < N" using L(1) cgN by simp
    then have LB: "L + 16 * cg < B" using Z[of "L + 16 * cg"] L(2) by force
    obtain n where n: "n \<le> (if lastCG then L else 15)" "p = int (scn ! (n + 16 * cg))"
        "f = 1 \<or> f = - 1" "dst ! (scn ! (n + 16 * cg)) = 0 \<longrightarrow> f = 1"
      using chg(3) unfolding change_ok_def L_def by blast
    have n15: "n \<le> 15" using n(1) L(1) by (simp split: if_splits)
    have qN: "n + 16 * cg < N" using n15 cgN by simp
    have qB: "n + 16 * cg < B"
    proof (cases lastCG)
      case True
      then show ?thesis using n(1) LB by simp
    next
      case False
      then show ?thesis using lc n15 by simp
    qed
    have np: "nat p = scn ! (n + 16 * cg)" using n(2) by simp
    have z: "dst ! nat p = 0 \<longrightarrow> f = 1" using n(4) np by simp
    note sc = sbh_apply_sign_count[OF chg(4) n(3) z sm]
    obtain v where d1: "d1 = dst[nat p := v]" using sbh_apply_Some(3)[OF chg(4)] by blast
    have len1: "length d1 = N" using len d1 by simp
    have Z1: "d1 ! (scn ! q) = 0" if q: "q < N" "B \<le> q" for q
    proof -
      have "q \<noteq> n + 16 * cg" using qB q(2) by simp
      then have "scn ! q \<noteq> scn ! (n + 16 * cg)" using scan_ok_neq[OF ok qN q(1)] by simp
      then have "d1 ! (scn ! q) = dst ! (scn ! q)" unfolding d1 np by simp
      then show ?thesis using Z[OF q] by simp
    qed
    have "16 * cg \<le> B" using LB by simp
    then show ?thesis
      unfolding sbh_state_ok_def acc' lscn using sc(1) sc(2)[OF len32 cnt] len1 Z1 by auto
  qed
qed

lemma fold_option_down_inv:
  assumes "fold (\<lambda>i r. case r of None \<Rightarrow> None | Some a \<Rightarrow> f i a) (rev [0..<m]) (Some a0) = Some a'"
      and "J m a0"
      and "\<And>i a a1. i < m \<Longrightarrow> J (Suc i) a \<Longrightarrow> f i a = Some a1 \<Longrightarrow> J i a1"
  shows "J 0 a'"
  using assms
proof (induction m arbitrary: a0)
  case 0
  then show ?case by simp
next
  case (Suc m)
  show ?case
  proof (cases "f m a0")
    case None
    with Suc.prems(1) show ?thesis by (simp add: fold_option_None)
  next
    case (Some a1)
    have j1: "J m a1" using Suc.prems(3)[of m a0 a1] Suc.prems(2) Some by simp
    have f1: "fold (\<lambda>i r. case r of None \<Rightarrow> None | Some a \<Rightarrow> f i a) (rev [0..<m]) (Some a1) = Some a'"
      using Suc.prems(1) Some by simp
    show ?thesis
      by (rule Suc.IH[OF f1 j1]) (use Suc.prems(3) in auto)
  qed
qed

lemma rdoq_signhide_inv:
  assumes run: "rdoq_signhide E invQuant st numSig dst = Some (numSig', dst')"
      and ok: "scan_ok (scan (e_cp E)) N" and N32: "c \<Longrightarrow> N < 2 ^ 32"
      and cgl: "16 * nat (cgLastScanPos st + 1) \<le> N"
      and sm: "signs_match (e_resi E) dst" and len: "length dst = N"
      and cnt: "c \<Longrightarrow> numSig = count_nonzero dst"
      and Z: "\<forall>q<N. B \<le> q \<longrightarrow> dst ! (scan (e_cp E) ! q) = 0"
  shows "signs_match (e_resi E) dst'" and "length dst' = N" and "c \<Longrightarrow> numSig' = count_nonzero dst'"
    and "\<forall>q<N. B \<le> q \<longrightarrow> dst' ! (scan (e_cp E) ! q) = 0"
proof -
  let ?scn = "scan (e_cp E)"
  let ?m = "nat (cgLastScanPos st + 1)"
  have lscn: "length ?scn = N" using ok by (simp add: scan_ok_def)
  obtain rdFactor lc' where f:
    "fold (\<lambda>subSet r. case r of None \<Rightarrow> None
                     | Some acc \<Rightarrow> rdoq_sbh_cg (e_resi E) st ?scn rdFactor subSet acc)
       (rev [0..<?m]) (Some (numSig, dst, True)) = Some (numSig', dst', lc')"
    using run unfolding rdoq_signhide_def Let_def by (auto split: option.splits)
  have "sbh_state_ok ?scn (e_resi E) c B 0 (numSig', dst', lc')"
  proof (rule fold_option_down_inv[OF f, where J = "sbh_state_ok ?scn (e_resi E) c B"])
    show "sbh_state_ok ?scn (e_resi E) c B ?m (numSig, dst, True)"
      using sm len cnt Z by (simp add: sbh_state_ok_def lscn)
  next
    fix i a a1
    assume i: "i < ?m" and j: "sbh_state_ok ?scn (e_resi E) c B (Suc i) a"
       and s: "rdoq_sbh_cg (e_resi E) st ?scn rdFactor i a = Some a1"
    have "16 * Suc i \<le> N" using i cgl by simp
    then show "sbh_state_ok ?scn (e_resi E) c B i a1"
      by (rule rdoq_sbh_cg_inv[OF s ok _ N32 j])
  qed
  then show "signs_match (e_resi E) dst'" and "length dst' = N" and "c \<Longrightarrow> numSig' = count_nonzero dst'"
    and "\<forall>q<N. B \<le> q \<longrightarrow> dst' ! (scan (e_cp E) ! q) = 0"
    by (simp_all add: sbh_state_ok_def lscn)
qed

lemma scan_ok_surj:
  assumes "scan_ok scn N" "i < N"
  shows "\<exists>q<N. scn ! q = i"
proof -
  have "i \<in> set scn" using scan_ok_set[OF assms(1)] assms(2) by simp
  then obtain q where "q < length scn" "scn ! q = i" by (auto simp: in_set_conv_nth)
  then show ?thesis using assms(1) by (auto simp: scan_ok_def)
qed

lemma rdoq_out_signs:
  assumes ok: "scan_ok scn N" and out: "rdoq_out scn resi a B dst"
      and nn: "\<And>q. q < N \<Longrightarrow> 0 \<le> a ! (scn ! q)"
  shows "signs_match resi dst" and "\<forall>i<N. \<bar>dst ! i\<bar> \<le> \<bar>a ! i\<bar>"
proof -
  have lscn: "length scn = N" using ok by (simp add: scan_ok_def)
  have len: "length dst = N" using out lscn by (simp add: rdoq_out_def)
  have val: "\<And>q. q < N \<Longrightarrow> dst ! (scn ! q)
           = (if q < B then signed_level (resi ! (scn ! q)) (a ! (scn ! q)) else 0)"
    using out lscn by (simp add: rdoq_out_def)
  have both: "sign_matches (resi ! i) (dst ! i) \<and> \<bar>dst ! i\<bar> \<le> \<bar>a ! i\<bar>" if i: "i < N" for i
  proof -
    obtain q where q: "q < N" "scn ! q = i" using scan_ok_surj[OF ok i] by blast
    show ?thesis using val[OF q(1)] nn[OF q(1)] unfolding q(2)
      by (auto simp: sign_matches_def signed_level_def)
  qed
  show "signs_match resi dst" unfolding signs_match_def len using both by blast
  show "\<forall>i<N. \<bar>dst ! i\<bar> \<le> \<bar>a ! i\<bar>" using both by blast
qed

lemma all_zero_props:
  assumes "\<forall>i<length xs. xs ! i = 0"
  shows "count_nonzero xs = 0" and "signs_match r xs"
proof -
  have "\<forall>x\<in>set xs. x = 0" using assms by (auto simp: in_set_conv_nth)
  then show "count_nonzero xs = 0" by (simp add: count_nonzero_def filter_empty_conv)
  show "signs_match r xs" using assms by (simp add: signs_match_def sign_matches_def)
qed

lemma count_nonzero_zero_all: "count_nonzero xs = 0 \<Longrightarrow> \<forall>i<length xs. xs ! i = 0"
  by (simp add: count_nonzero_def filter_empty_conv)

text \<open>The properties of the result of \<^verbatim>\<open>rdoQuant\<close> that the claims are made of.\<close>

lemma rdoq_body_props:
  assumes run: "rdoq_body E cu ttype invQuant d0 = Some (numSig, coeff, bl)"
      and ok: "scan_ok (scan (e_cp E)) N" and len: "length d0 = N"
      and cgs: "16 * push_bit (log2TrSizeCG (e_cp E) * 2) (1 :: nat) = N"
      and rng: "\<forall>i<N. - (2 ^ 31) \<le> e_resi E ! i \<and> e_resi E ! i < 2 ^ 31"
      and N32: "N < 2 ^ 32"
  shows "length coeff = N" and "numSig = count_nonzero coeff" and "signs_match (e_resi E) coeff"
    and "bl = None \<longrightarrow> numSig = 0"
    and "\<forall>b. bl = Some b \<longrightarrow> 0 \<le> b \<and> nat b \<le> N
            \<and> (\<forall>q<N. nat b \<le> q \<longrightarrow> coeff ! (scan (e_cp E) ! q) = 0)
            \<and> (\<not> bSignHideEnabled cu \<longrightarrow> numSig \<noteq> 0
                 \<longrightarrow> 0 < b \<and> coeff ! (scan (e_cp E) ! (nat b - 1)) \<noteq> 0)"
    and "\<not> bSignHideEnabled cu \<longrightarrow> (\<forall>i<N. \<bar>coeff ! i\<bar> \<le> \<bar>d0 ! i\<bar>)"
proof -
  let ?scn = "scan (e_cp E)"
  define cgNum where "cgNum = push_bit (log2TrSizeCG (e_cp E) * 2) (1 :: nat)"
  define st where "st = for_down (rdoq_cg E) cgNum
                     (rdoq_init_state (e_D E) (push_bit (e_log2TrSize E * 2) 1) d0)"
  have lscn: "length ?scn = N" using ok by (simp add: scan_ok_def)
  have cN: "16 * cgNum = N" using cgs by (simp add: cgNum_def)
  have inv: "rdoq_inv ?scn d0 0 st"
    unfolding st_def
    by (rule rdoq_main_loop_inv[OF ok len]) (simp_all add: cN rdoq_init_inv[OF len lscn])
  have cgl: "cgLastScanPos st < int cgNum"
    unfolding st_def by (rule rdoq_main_loop_cgLast) (simp_all add: rdoq_init_state_def)
  have la: "length (dstCoeff st) = N" using inv len by (simp add: rdoq_inv_def)
  have a_nn: "\<And>q. q < N \<Longrightarrow> 0 \<le> dstCoeff st ! (?scn ! q)"
    and a_le: "\<And>q. q < N \<Longrightarrow> dstCoeff st ! (?scn ! q) \<le> \<bar>d0 ! (?scn ! q)\<bar>"
    and a_z: "\<And>q. q < N \<Longrightarrow> lastScanPos st < int q \<Longrightarrow> dstCoeff st ! (?scn ! q) = 0"
    using inv lscn by (simp_all add: rdoq_inv_def)
  have a_abs: "\<bar>dstCoeff st ! i\<bar> \<le> \<bar>d0 ! i\<bar>" if i: "i < N" for i
  proof -
    obtain q where q: "q < N" "?scn ! q = i" using scan_ok_surj[OF ok i] by blast
    show ?thesis using a_nn[OF q(1)] a_le[OF q(1)] unfolding q(2) by simp
  qed
  have all: "length coeff = N \<and> numSig = count_nonzero coeff \<and> signs_match (e_resi E) coeff
      \<and> (bl = None \<longrightarrow> numSig = 0)
      \<and> (\<forall>b. bl = Some b \<longrightarrow> 0 \<le> b \<and> nat b \<le> N
            \<and> (\<forall>q<N. nat b \<le> q \<longrightarrow> coeff ! (scan (e_cp E) ! q) = 0)
            \<and> (\<not> bSignHideEnabled cu \<longrightarrow> numSig \<noteq> 0
                 \<longrightarrow> 0 < b \<and> coeff ! (scan (e_cp E) ! (nat b - 1)) \<noteq> 0))
      \<and> (\<not> bSignHideEnabled cu \<longrightarrow> (\<forall>i<N. \<bar>coeff ! i\<bar> \<le> \<bar>d0 ! i\<bar>))"
  proof (cases "lastScanPos st < 0")
    case True
    then have res: "numSig = 0" "coeff = dstCoeff st" "bl = None"
      using run unfolding rdoq_body_def Let_def st_def[symmetric] cgNum_def[symmetric] by simp_all
    have z: "\<forall>i<length (dstCoeff st). dstCoeff st ! i = 0"
    proof (intro allI impI)
      fix i assume "i < length (dstCoeff st)"
      then have i: "i < N" using la by simp
      obtain q where q: "q < N" "?scn ! q = i" using scan_ok_surj[OF ok i] by blast
      show "dstCoeff st ! i = 0" using a_z[OF q(1)] True unfolding q(2) by simp
    qed
    show ?thesis
      unfolding res using la all_zero_props[OF z] a_abs by simp
  next
    case False
    then have L: "0 \<le> lastScanPos st" by simp
    define b where "b = bestLastIdx (rdoq_last_search E (\<not> cuIsIntra cu \<and> e_bIsLuma E \<and> transformIdx cu = 0)
                     (ctxQtCbf cu ttype) st)"
    define rc where "rc = rdoq_recount (e_resi E) ?scn b (dstCoeff st)"
    define dst2 where "dst2 = rdoq_clean ?scn b (lastScanPos st) (snd rc)"
    have li: "b = 0 \<or> (0 < b \<and> b \<le> lastScanPos st + 1 \<and> dstCoeff st ! (?scn ! nat (b - 1)) \<noteq> 0)"
      using rdoq_last_search_inv[of E st "\<not> cuIsIntra cu \<and> e_bIsLuma E \<and> transformIdx cu = 0" "ctxQtCbf cu ttype"]
      unfolding last_inv_def b_def .
    note T = rdoq_tail[OF ok len inv rng L li N32, folded rc_def, folded dst2_def]
    have b0: "0 \<le> b" using li by auto
    have out_val: "\<And>q. q < N \<Longrightarrow> dst2 ! (?scn ! q)
           = (if q < nat b then signed_level (e_resi E ! (?scn ! q)) (dstCoeff st ! (?scn ! q)) else 0)"
      and l2: "length dst2 = N"
      using T(1) lscn by (simp_all add: rdoq_out_def)
    have Z2: "\<forall>q<N. nat b \<le> q \<longrightarrow> dst2 ! (?scn ! q) = 0" using out_val by simp
    note S = rdoq_out_signs[OF ok T(1) a_nn]
    have unf: "rdoq_body E cu ttype invQuant d0
       = (if bSignHideEnabled cu \<and> fst rc \<ge> 2
          then (case rdoq_signhide E invQuant st (fst rc) dst2 of
                  None \<Rightarrow> None
                | Some (numSig', dst') \<Rightarrow> Some (numSig', dst', Some b))
          else Some (fst rc, dst2, Some b))"
      using False
      unfolding rdoq_body_def Let_def st_def[symmetric] cgNum_def[symmetric] b_def[symmetric]
        rc_def[symmetric] dst2_def[symmetric]
      by simp
    show ?thesis
    proof (cases "bSignHideEnabled cu \<and> fst rc \<ge> 2")
      case True
      then have sh: "rdoq_signhide E invQuant st (fst rc) dst2 = Some (numSig, coeff)" and bl: "bl = Some b"
        using run unfolding unf by (auto split: option.splits)
      have cg16: "16 * nat (cgLastScanPos st + 1) \<le> N" using cgl cN by simp
      have N32': "True \<Longrightarrow> N < 2 ^ 32" by (rule N32)
      have cnt': "True \<Longrightarrow> fst rc = count_nonzero dst2" by (rule T(2))
      note H = rdoq_signhide_inv[where c = True, OF sh ok N32' cg16 S(1) l2 cnt' Z2]
      show ?thesis using H(1,2,4) H(3)[OF TrueI] T(3) b0 True unfolding bl by simp
    next
      case nsh: False
      then have c: "(bSignHideEnabled cu \<and> fst rc \<ge> 2) = False" by (rule eq_False[THEN iffD2])
      have res: "numSig = fst rc" "coeff = dst2" "bl = Some b"
        using run unfolding unf c by simp_all
      have last: "0 < b \<and> dst2 ! (?scn ! (nat b - 1)) \<noteq> 0" if nz: "fst rc \<noteq> 0"
      proof -
        have "b \<noteq> 0"
        proof
          assume "b = 0"
          then have "count_nonzero dst2 = 0"
            using rdoq_out_count[OF ok T(1) T(3)] by simp
          then show False using nz T(2) by simp
        qed
        then have b: "0 < b" "dstCoeff st ! (?scn ! nat (b - 1)) \<noteq> 0" using li by auto
        have e: "nat (b - 1) = nat b - 1" by simp
        have q: "nat b - 1 < N" "nat b - 1 < nat b" using T(3) b(1) by simp_all
        show ?thesis using out_val[OF q(1)] q(2) b unfolding e by (simp add: signed_level_zero_iff)
      qed
      have absb: "\<forall>i<N. \<bar>dst2 ! i\<bar> \<le> \<bar>d0 ! i\<bar>"
        using S(2) a_abs by (meson order_trans)
      show ?thesis unfolding res using l2 T(2,3) S(1) Z2 b0 last absb by simp
    qed
  qed
  note c2 = all[THEN conjunct2]
  note c3 = c2[THEN conjunct2]
  note c4 = c3[THEN conjunct2]
  note c5 = c4[THEN conjunct2]
  show "length coeff = N" by (rule all[THEN conjunct1])
  show "numSig = count_nonzero coeff" by (rule c2[THEN conjunct1])
  show "signs_match (e_resi E) coeff" by (rule c3[THEN conjunct1])
  show "bl = None \<longrightarrow> numSig = 0" by (rule c4[THEN conjunct1])
  show "\<forall>b. bl = Some b \<longrightarrow> 0 \<le> b \<and> nat b \<le> N
            \<and> (\<forall>q<N. nat b \<le> q \<longrightarrow> coeff ! (scan (e_cp E) ! q) = 0)
            \<and> (\<not> bSignHideEnabled cu \<longrightarrow> numSig \<noteq> 0
                 \<longrightarrow> 0 < b \<and> coeff ! (scan (e_cp E) ! (nat b - 1)) \<noteq> 0)"
    by (rule c5[THEN conjunct1])
  show "\<not> bSignHideEnabled cu \<longrightarrow> (\<forall>i<N. \<bar>coeff ! i\<bar> \<le> \<bar>d0 ! i\<bar>)"
    by (rule c5[THEN conjunct2])
qed






lemma nquant_props:
  "fst (nquant coef qcs qBits add n) = count_nonzero (snd (snd (nquant coef qcs qBits add n)))"
  "length (snd (snd (nquant coef qcs qBits add n))) = n"
  "i < n \<Longrightarrow> snd (snd (nquant coef qcs qBits add n)) ! i = quant_level (coef ! i) (qcs ! i) qBits add"
  by (simp_all add: nquant_def Let_def)


lemma rdoq_make_env_proj [simp]:
  "e_cp (rdoq_make_env K D Q cu l ttype usePsy sc) = tuCodeParams cu l (ttype = TEXT_LUMA)"
  "e_resi (rdoq_make_env K D Q cu l ttype usePsy sc) = m_resiDctCoeff Q"
  by (simp_all add: rdoq_make_env_def Let_def)

text \<open>
  The properties of \<^verbatim>\<open>rdoQuant\<close>; \<open>d0\<close> is the level array that \<^verbatim>\<open>nquant\<close> writes.
\<close>

lemma rdoQuant_run_props:
  assumes run: "rdoQuant_run K D Q cu l ttype usePsy = Some (numSig, coeff, bl)"
      and N: "N = push_bit (l * 2) (1 :: nat)"
      and ok: "scan_ok (scan (tuCodeParams cu l (ttype = TEXT_LUMA))) N"
      and cgs: "16 * push_bit (log2TrSizeCG (tuCodeParams cu l (ttype = TEXT_LUMA)) * 2) (1 :: nat) = N"
      and rng: "\<forall>i<N. - (2 ^ 31) \<le> m_resiDctCoeff Q ! i \<and> m_resiDctCoeff Q ! i < 2 ^ 31"
      and N32: "N < 2 ^ 32"
      and d0: "d0 = snd (snd (nquant (m_resiDctCoeff Q)
                   (m_quantCoef Q (l - 2) ((if cuIsIntra cu then 0 else 3) + ttype_int ttype)
                      (rem (m_qpParam Q ttype)))
                   (QUANT_SHIFT K + per (m_qpParam Q ttype)
                      + (MAX_TR_DYNAMIC_RANGE K - X265_DEPTH K - int l))
                   (push_bit (nat (QUANT_SHIFT K + per (m_qpParam Q ttype)
                      + (MAX_TR_DYNAMIC_RANGE K - X265_DEPTH K - int l) - 1)) 1) N))"
  shows "length coeff = N" and "numSig = count_nonzero coeff"
    and "signs_match (m_resiDctCoeff Q) coeff"
    and "bl = None \<longrightarrow> numSig = 0"
    and "\<forall>b. bl = Some b \<longrightarrow> 0 \<le> b \<and> nat b \<le> N
            \<and> (\<forall>q<N. nat b \<le> q \<longrightarrow> coeff ! (scan (tuCodeParams cu l (ttype = TEXT_LUMA)) ! q) = 0)
            \<and> (\<not> bSignHideEnabled cu \<longrightarrow> numSig \<noteq> 0
                 \<longrightarrow> 0 < b \<and> coeff ! (scan (tuCodeParams cu l (ttype = TEXT_LUMA)) ! (nat b - 1)) \<noteq> 0)"
    and "\<not> bSignHideEnabled cu \<longrightarrow> (\<forall>i<N. \<bar>coeff ! i\<bar> \<le> \<bar>d0 ! i\<bar>)"
proof -
  define qb where "qb = QUANT_SHIFT K + per (m_qpParam Q ttype)
                      + (MAX_TR_DYNAMIC_RANGE K - X265_DEPTH K - int l)"
  define nq where "nq = nquant (m_resiDctCoeff Q)
                   (m_quantCoef Q (l - 2) ((if cuIsIntra cu then 0 else 3) + ttype_int ttype)
                      (rem (m_qpParam Q ttype))) qb (push_bit (nat (qb - 1)) 1) N"
  define E where "E = rdoq_make_env K D Q cu l ttype usePsy (fst (snd nq))"
  have d0': "d0 = snd (snd nq)" unfolding d0 nq_def qb_def ..
  have ld0: "length d0 = N" unfolding d0' nq_def by (rule nquant_props(2))
  have unf: "rdoQuant_run K D Q cu l ttype usePsy
       = (if fst nq = 0 then Some (0, d0, None)
          else rdoq_body E cu ttype
                 (push_bit (nat (per (m_qpParam Q ttype))) (s_invQuantScales Q ! nat (rem (m_qpParam Q ttype))))
                 d0)"
    unfolding rdoQuant_run_def Let_def N[symmetric] qb_def[symmetric] nq_def[symmetric]
      E_def[symmetric] d0'[symmetric] ..
  have all: "length coeff = N \<and> numSig = count_nonzero coeff
      \<and> signs_match (m_resiDctCoeff Q) coeff
      \<and> (bl = None \<longrightarrow> numSig = 0)
      \<and> (\<forall>b. bl = Some b \<longrightarrow> 0 \<le> b \<and> nat b \<le> N
            \<and> (\<forall>q<N. nat b \<le> q \<longrightarrow> coeff ! (scan (tuCodeParams cu l (ttype = TEXT_LUMA)) ! q) = 0)
            \<and> (\<not> bSignHideEnabled cu \<longrightarrow> numSig \<noteq> 0
                 \<longrightarrow> 0 < b \<and> coeff ! (scan (tuCodeParams cu l (ttype = TEXT_LUMA)) ! (nat b - 1)) \<noteq> 0))
      \<and> (\<not> bSignHideEnabled cu \<longrightarrow> (\<forall>i<N. \<bar>coeff ! i\<bar> \<le> \<bar>d0 ! i\<bar>))"
  proof (cases "fst nq = 0")
    case True
    then have res: "numSig = 0" "coeff = d0" "bl = None" using run unfolding unf by simp_all
    have "count_nonzero d0 = 0" using True unfolding d0' nq_def nquant_props(1) .
    then have z: "\<forall>i<length d0. d0 ! i = 0" by (rule count_nonzero_zero_all)
    show ?thesis unfolding res using ld0 all_zero_props[OF z] by simp
  next
    case False
    then have body: "rdoq_body E cu ttype
                 (push_bit (nat (per (m_qpParam Q ttype))) (s_invQuantScales Q ! nat (rem (m_qpParam Q ttype))))
                 d0 = Some (numSig, coeff, bl)"
      using run unfolding unf by simp
    have cp: "e_cp E = tuCodeParams cu l (ttype = TEXT_LUMA)" and re: "e_resi E = m_resiDctCoeff Q"
      unfolding E_def by simp_all
    note B = rdoq_body_props[OF body, unfolded cp re, OF ok ld0 cgs rng N32]
    show ?thesis by (intro conjI B)
  qed
  note c2 = all[THEN conjunct2]
  note c3 = c2[THEN conjunct2]
  note c4 = c3[THEN conjunct2]
  note c5 = c4[THEN conjunct2]
  show "length coeff = N" by (rule all[THEN conjunct1])
  show "numSig = count_nonzero coeff" by (rule c2[THEN conjunct1])
  show "signs_match (m_resiDctCoeff Q) coeff" by (rule c3[THEN conjunct1])
  show "bl = None \<longrightarrow> numSig = 0" by (rule c4[THEN conjunct1])
  show "\<forall>b. bl = Some b \<longrightarrow> 0 \<le> b \<and> nat b \<le> N
            \<and> (\<forall>q<N. nat b \<le> q \<longrightarrow> coeff ! (scan (tuCodeParams cu l (ttype = TEXT_LUMA)) ! q) = 0)
            \<and> (\<not> bSignHideEnabled cu \<longrightarrow> numSig \<noteq> 0
                 \<longrightarrow> 0 < b \<and> coeff ! (scan (tuCodeParams cu l (ttype = TEXT_LUMA)) ! (nat b - 1)) \<noteq> 0)"
    by (rule c5[THEN conjunct1])
  show "\<not> bSignHideEnabled cu \<longrightarrow> (\<forall>i<N. \<bar>coeff ! i\<bar> \<le> \<bar>d0 ! i\<bar>)"
    by (rule c5[THEN conjunct2])
qed

section \<open>The last significant position of rdoQuant\<close>

lemma pow2_double: "push_bit (l * 2) (1 :: nat) = 2 ^ (l * 2)"
  by (simp add: push_bit_eq_mult)

lemma pow2_lt_32: "l < 16 \<Longrightarrow> (2 :: nat) ^ (l * 2) < 2 ^ 32"
  by (rule power_strict_increasing) simp_all

text \<open>
  Claim C3, as amended. \<open>rdoQuant_run\<close> is \<^verbatim>\<open>rdoQuant\<close> with the final value of its local
  \<^verbatim>\<open>bestLastIdx\<close> added to the result. After \<^verbatim>\<open>rdoQuant\<close> returns a non-zero count, every
  output level at a scan position greater than or equal to \<^verbatim>\<open>bestLastIdx\<close> is zero; and when
  sign-data hiding is disabled, \<^verbatim>\<open>bestLastIdx\<close> is positive and the level at scan position
  \<^verbatim>\<open>bestLastIdx - 1\<close> is non-zero. (The scan is a permutation of the block positions, the
  block has \<open>16\<close> coefficients per group, and the DCT coefficients are 32-bit values.)
\<close>

theorem rdoQuant_bestLastIdx:
  assumes "rdoQuant_run K D Q cu log2TrSize ttype usePsy = Some (numSig, coeff, bl)"
      and "numSig \<noteq> 0"
      and "scan_ok (scan (tuCodeParams cu log2TrSize (ttype = TEXT_LUMA))) (2 ^ (log2TrSize * 2))"
      and "16 * 2 ^ (log2TrSizeCG (tuCodeParams cu log2TrSize (ttype = TEXT_LUMA)) * 2)
             = (2 :: nat) ^ (log2TrSize * 2)"
      and "\<forall>i<2 ^ (log2TrSize * 2). - (2 ^ 31) \<le> m_resiDctCoeff Q ! i \<and> m_resiDctCoeff Q ! i < 2 ^ 31"
      and "log2TrSize < 16"
  shows "\<exists>b. bl = Some b \<and> 0 \<le> b \<and> nat b \<le> 2 ^ (log2TrSize * 2)
           \<and> (\<forall>q<2 ^ (log2TrSize * 2). nat b \<le> q
                 \<longrightarrow> coeff ! (scan (tuCodeParams cu log2TrSize (ttype = TEXT_LUMA)) ! q) = 0)
           \<and> (\<not> bSignHideEnabled cu
                 \<longrightarrow> 0 < b \<and> coeff ! (scan (tuCodeParams cu log2TrSize (ttype = TEXT_LUMA)) ! (nat b - 1)) \<noteq> 0)"
proof -
  have cgs: "16 * push_bit (log2TrSizeCG (tuCodeParams cu log2TrSize (ttype = TEXT_LUMA)) * 2) (1 :: nat)
               = 2 ^ (log2TrSize * 2)"
    using assms(4) by (simp add: push_bit_eq_mult)
  note P = rdoQuant_run_props[OF assms(1) pow2_double[symmetric] assms(3) cgs assms(5)
             pow2_lt_32[OF assms(6)] refl]
  from P(4) assms(2) obtain b where b: "bl = Some b" by (cases bl) auto
  from P(5) b assms(2) show ?thesis by simp
qed

lemma ex_scan_ok: "scan_ok (scan (tuCodeParams (ex_cu bp sh) l luma)) (2 ^ (2 * 2))"
  by (simp add: scan_ok_def ex_cu_def ex_cp4_def ex_scan4_def)

lemma ex_cgs: "16 * 2 ^ (log2TrSizeCG (tuCodeParams (ex_cu bp sh) l luma) * 2) = (2 :: nat) ^ (2 * 2)"
  by (simp add: ex_cu_def ex_cp4_def)

lemma all_nth_of_set: "\<forall>x\<in>set xs. P x \<Longrightarrow> n \<le> length xs \<Longrightarrow> \<forall>i<n. P (xs ! i)"
  by simp

lemma ex_rdoq_rng:
  "\<forall>i<2 ^ (2 * 2). - (2 ^ 31) \<le> m_resiDctCoeff (ex_Q r ex_rdoq_resi) ! i
                   \<and> m_resiDctCoeff (ex_Q r ex_rdoq_resi) ! i < 2 ^ 31"
  by (rule all_nth_of_set) (simp_all add: ex_Q_def ex_rdoq_resi_def)

lemma ex_rdoq_run:
  "rdoQuant_run ex_K ex_D (ex_Q True ex_rdoq_resi) (ex_cu False False) 2 TEXT_LUMA False
     = Some (2, [2, 0, 1, 0, 0, 0, 0, 0, 0, 0, 0, 0, 0, 0, 0, 0], Some 6)"
  by code_simp

lemma ex_rdoq_run_sbh:
  "rdoQuant_run ex_K ex_D (ex_Q True ex_rdoq_resi) (ex_cu False True) 2 TEXT_LUMA False
     = Some (1, [2, 0, 0, 0, 0, 0, 0, 0, 0, 0, 0, 0, 0, 0, 0, 0], Some 6)"
  by code_simp

text \<open>
  Claim C3 as stated fails. On a 4 by 4 block whose DCT coefficients are \<open>64\<close> at scan
  position 0 and \<open>47\<close> at scan position 5, \<^verbatim>\<open>rdoQuant\<close> returns \<open>2\<close> with \<^verbatim>\<open>bestLastIdx = 6\<close>:
  the level at scan position 6 is zero, the last non-zero level is at scan position 5.
  With sign-data hiding enabled the sign-hiding pass then removes that level: the call
  returns \<open>1\<close> and the level at scan position 5 is zero too.
\<close>

theorem rdoQuant_bestLastIdx_counterexample:
  "rdoQuant_run ex_K ex_D (ex_Q True ex_rdoq_resi) (ex_cu False False) 2 TEXT_LUMA False
     = Some (2, [2, 0, 1, 0, 0, 0, 0, 0, 0, 0, 0, 0, 0, 0, 0, 0], Some 6)
   \<and> [2, 0, 1, 0, 0, 0, 0, 0, 0, 0, 0, 0, 0, 0, 0, 0 :: int] ! (ex_scan4 ! 6) = 0
   \<and> [2, 0, 1, 0, 0, 0, 0, 0, 0, 0, 0, 0, 0, 0, 0, 0 :: int] ! (ex_scan4 ! 5) = 1
   \<and> rdoQuant_run ex_K ex_D (ex_Q True ex_rdoq_resi) (ex_cu False True) 2 TEXT_LUMA False
     = Some (1, [2, 0, 0, 0, 0, 0, 0, 0, 0, 0, 0, 0, 0, 0, 0, 0], Some 6)
   \<and> [2, 0, 0, 0, 0, 0, 0, 0, 0, 0, 0, 0, 0, 0, 0, 0 :: int] ! (ex_scan4 ! 5) = 0"
  by (simp add: ex_rdoq_run ex_rdoq_run_sbh ex_scan4_def)

theorem rdoQuant_bestLastIdx_witness:
  "rdoQuant_run ex_K ex_D (ex_Q True ex_rdoq_resi) (ex_cu False False) 2 TEXT_LUMA False
     = Some (2, [2, 0, 1, 0, 0, 0, 0, 0, 0, 0, 0, 0, 0, 0, 0, 0], Some 6)
   \<and> [2, 0, 1, 0, 0, 0, 0, 0, 0, 0, 0, 0, 0, 0, 0, 0 :: int]
        ! (scan (tuCodeParams (ex_cu False False) 2 (TEXT_LUMA = TEXT_LUMA)) ! 6) = 0
   \<and> [2, 0, 1, 0, 0, 0, 0, 0, 0, 0, 0, 0, 0, 0, 0, 0 :: int]
        ! (scan (tuCodeParams (ex_cu False False) 2 (TEXT_LUMA = TEXT_LUMA)) ! 15) = 0
   \<and> [2, 0, 1, 0, 0, 0, 0, 0, 0, 0, 0, 0, 0, 0, 0, 0 :: int]
        ! (scan (tuCodeParams (ex_cu False False) 2 (TEXT_LUMA = TEXT_LUMA)) ! 5) \<noteq> 0"
proof -
  have nsh: "\<not> bSignHideEnabled (ex_cu False False)" by (simp add: ex_cu_def)
  from rdoQuant_bestLastIdx[OF ex_rdoq_run _ ex_scan_ok ex_cgs ex_rdoq_rng]
  obtain b where b: "Some 6 = Some b"
    and z: "\<forall>q<2 ^ (2 * 2). nat b \<le> q
                 \<longrightarrow> [2, 0, 1, 0, 0, 0, 0, 0, 0, 0, 0, 0, 0, 0, 0, 0 :: int]
                       ! (scan (tuCodeParams (ex_cu False False) 2 (TEXT_LUMA = TEXT_LUMA)) ! q) = 0"
    and l: "\<not> bSignHideEnabled (ex_cu False False)
                 \<longrightarrow> 0 < b \<and> [2, 0, 1, 0, 0, 0, 0, 0, 0, 0, 0, 0, 0, 0, 0, 0 :: int]
                       ! (scan (tuCodeParams (ex_cu False False) 2 (TEXT_LUMA = TEXT_LUMA)) ! (nat b - 1)) \<noteq> 0"
    by auto
  have b6: "b = 6" using b by simp
  show ?thesis using z[rule_format, of 6] z[rule_format, of 15] l nsh ex_rdoq_run unfolding b6
    by simp
qed

section \<open>transformNxN: the number and the signs of the levels\<close>







lemma signs_match_same_side:
  assumes "signs_match r a" "signs_match r b" "length b = length a"
  shows "\<forall>i<length a. 0 \<le> a ! i * b ! i"
proof (intro allI impI)
  fix i assume i: "i < length a"
  have "sign_matches (r ! i) (a ! i)" "sign_matches (r ! i) (b ! i)"
    using assms i by (simp_all add: signs_match_def)
  then show "0 \<le> a ! i * b ! i"
    by (auto simp: sign_matches_def zero_le_mult_iff)
qed

text \<open>
  Claim C10. In \<^verbatim>\<open>signBitHidingHDQ\<close> and in the rate-distortion sign-hiding pass of
  \<^verbatim>\<open>rdoQuant\<close> the chosen change is added to the level when the DCT coefficient is not negative
  and subtracted when it is negative (first part, on the step that both share). If every
  non-zero level carries the sign of its DCT coefficient before, then so it does after, and
  no level crosses zero: the product of the old and the new level is never negative
  (second part for \<^verbatim>\<open>signBitHidingHDQ\<close>, third part for the pass of \<^verbatim>\<open>rdoQuant\<close>, there for a
  scan that is a permutation of the block positions).
\<close>

theorem sign_hiding_keeps_sign:
  "(sbh_apply coeff resi numSig p f = Some (numSig', coeff')
      \<longrightarrow> coeff' = coeff[nat p :=
             (if resi ! nat p \<ge> 0
              then coeff ! nat p + (if coeff ! nat p = 32767 \<or> coeff ! nat p = - 32768 then - 1 else f)
              else coeff ! nat p - (if coeff ! nat p = 32767 \<or> coeff ! nat p = - 32768 then - 1 else f))])
   \<and> (signBitHidingHDQ resi coeff dU numSig cp = Some (numSig', coeff') \<longrightarrow> signs_match resi coeff
      \<longrightarrow> signs_match resi coeff' \<and> length coeff' = length coeff
          \<and> (\<forall>i<length coeff. 0 \<le> coeff ! i * coeff' ! i))
   \<and> (rdoq_signhide E invQuant st numSig coeff = Some (numSig', coeff')
      \<longrightarrow> signs_match (e_resi E) coeff \<longrightarrow> scan_ok (scan (e_cp E)) (length coeff)
      \<longrightarrow> 16 * nat (cgLastScanPos st + 1) \<le> length coeff
      \<longrightarrow> signs_match (e_resi E) coeff' \<and> length coeff' = length coeff
          \<and> (\<forall>i<length coeff. 0 \<le> coeff ! i * coeff' ! i))"
proof (intro conjI impI)
  assume "sbh_apply coeff resi numSig p f = Some (numSig', coeff')"
  then show "coeff' = coeff[nat p :=
             (if resi ! nat p \<ge> 0
              then coeff ! nat p + (if coeff ! nat p = 32767 \<or> coeff ! nat p = - 32768 then - 1 else f)
              else coeff ! nat p - (if coeff ! nat p = 32767 \<or> coeff ! nat p = - 32768 then - 1 else f))]"
    by (rule sbh_apply_Some(3))
next
  assume run: "signBitHidingHDQ resi coeff dU numSig cp = Some (numSig', coeff')"
     and sm: "signs_match resi coeff"
  note H = signBitHidingHDQ_inv[OF run sm]
  show "signs_match resi coeff'" by (rule H(1))
  show "length coeff' = length coeff" by (rule H(2))
  show "\<forall>i<length coeff. 0 \<le> coeff ! i * coeff' ! i"
    by (rule signs_match_same_side[OF sm H(1) H(2)])
next
  assume run: "rdoq_signhide E invQuant st numSig coeff = Some (numSig', coeff')"
     and sm: "signs_match (e_resi E) coeff" and ok: "scan_ok (scan (e_cp E)) (length coeff)"
     and cg: "16 * nat (cgLastScanPos st + 1) \<le> length coeff"
  have n32: "False \<Longrightarrow> length coeff < 2 ^ 32" by simp
  have cnt: "False \<Longrightarrow> numSig = count_nonzero coeff" by simp
  have Z: "\<forall>q<length coeff. length coeff \<le> q \<longrightarrow> coeff ! (scan (e_cp E) ! q) = 0" by simp
  note H = rdoq_signhide_inv[where c = False and B = "length coeff", OF run ok n32 cg sm refl cnt Z]
  show "signs_match (e_resi E) coeff'" by (rule H(1))
  show "length coeff' = length coeff" by (rule H(2))
  show "\<forall>i<length coeff. 0 \<le> coeff ! i * coeff' ! i"
    by (rule signs_match_same_side[OF sm H(1) H(2)])
qed








lemma ex_rdoq_signhide:
  "rdoq_signhide ex_E 64 ex_st 2 [2, 0, 1, 0, 0, 0, 0, 0, 0, 0, 0, 0, 0, 0, 0, 0]
     = Some (1, [2, 0, 0, 0, 0, 0, 0, 0, 0, 0, 0, 0, 0, 0, 0, 0])"
  by code_simp

lemma ex_st_cgLast: "cgLastScanPos ex_st = 0"
  by code_simp

lemma signs_match_list_all2:
  "length c \<le> length r \<Longrightarrow> list_all2 sign_matches (take (length c) r) c \<Longrightarrow> signs_match r c"
  by (auto simp: signs_match_def list_all2_conv_all_nth)

theorem sign_hiding_keeps_sign_witness:
  "signBitHidingHDQ ex_hdq_resi ex_hdq_coeff ex_hdq_deltaU 2 ex_cp4
     = Some (3, [2, 0, 1, 0, 0, 1, 0, 0, 0, 0, 0, 0, 0, 0, 0, 0])
   \<and> signs_match ex_hdq_resi [2, 0, 1, 0, 0, 1, 0, 0, 0, 0, 0, 0, 0, 0, 0, 0]
   \<and> rdoq_signhide ex_E 64 ex_st 2 [2, 0, 1, 0, 0, 0, 0, 0, 0, 0, 0, 0, 0, 0, 0, 0]
     = Some (1, [2, 0, 0, 0, 0, 0, 0, 0, 0, 0, 0, 0, 0, 0, 0, 0])
   \<and> signs_match (e_resi ex_E) [2, 0, 0, 0, 0, 0, 0, 0, 0, 0, 0, 0, 0, 0, 0, 0]"
proof -
  have s1: "signs_match ex_hdq_resi ex_hdq_coeff"
    by (rule signs_match_list_all2)
       (simp_all add: ex_hdq_resi_def ex_hdq_coeff_def sign_matches_def)
  have re: "e_resi ex_E = ex_rdoq_resi" and cp: "scan (e_cp ex_E) = ex_scan4"
    unfolding ex_E_def by (simp_all add: ex_Q_def ex_cu_def ex_cp4_def)
  have s2: "signs_match (e_resi ex_E) [2, 0, 1, 0, 0, 0, 0, 0, 0, 0, 0, 0, 0, 0, 0, 0]"
    unfolding re
    by (rule signs_match_list_all2) (simp_all add: ex_rdoq_resi_def sign_matches_def)
  have ok: "scan_ok (scan (e_cp ex_E)) (length [2, 0, 1, 0, 0, 0, 0, 0, 0, 0, 0, 0, 0, 0, 0, 0 :: int])"
    unfolding cp by (simp add: scan_ok_def ex_scan4_def)
  have cg: "16 * nat (cgLastScanPos ex_st + 1) \<le> length [2, 0, 1, 0, 0, 0, 0, 0, 0, 0, 0, 0, 0, 0, 0, 0 :: int]"
    by (simp add: ex_st_cgLast)
  note A = sign_hiding_keeps_sign[where resi = ex_hdq_resi and coeff = ex_hdq_coeff
             and dU = ex_hdq_deltaU and numSig = 2 and cp = ex_cp4 and numSig' = 3
             and coeff' = "[2, 0, 1, 0, 0, 1, 0, 0, 0, 0, 0, 0, 0, 0, 0, 0]",
             THEN conjunct2, THEN conjunct1, rule_format, OF ex_hdq_run s1]
  note B = sign_hiding_keeps_sign[where E = ex_E and invQuant = 64 and st = ex_st and numSig = 2
             and coeff = "[2, 0, 1, 0, 0, 0, 0, 0, 0, 0, 0, 0, 0, 0, 0, 0]" and numSig' = 1
             and coeff' = "[2, 0, 0, 0, 0, 0, 0, 0, 0, 0, 0, 0, 0, 0, 0, 0]",
             THEN conjunct2, THEN conjunct2, rule_format, OF ex_rdoq_signhide s2 ok cg]
  show ?thesis
    by (intro conjI ex_hdq_run ex_rdoq_signhide A[THEN conjunct1] B[THEN conjunct1])
qed

end
